theory Spec2Isabelle
  imports Main
begin

section \<open>The bulk playlist job of the background service worker\<close>

text \<open>
  The background script holds one closure, \<^verbatim>\<open>DirectVideoApplyJob\<close>, with a single mutable
  variable \<^verbatim>\<open>job\<close>. All of its code runs inside callbacks of the browser's event loop:
  the runtime message that starts a job, the callback of \<^verbatim>\<open>chrome.tabs.create\<close>, the
  \<^verbatim>\<open>tabs.onUpdated\<close> listener, the callback of \<^verbatim>\<open>scripting.executeScript\<close>, the
  \<^verbatim>\<open>setTimeout\<close> callback and the \<^verbatim>\<open>runtime.onMessage\<close> handler for worker results.
  The model is a state record and one function per callback; every call of a
  \<^verbatim>\<open>chrome.*\<close> API that has an effect outside the closure is appended to a log.
\<close>

subsection \<open>URL normalisation\<close>

text \<open>
  \<^verbatim>\<open>toAbs\<close> and \<^verbatim>\<open>stripParams\<close> call the browser's built-in \<^verbatim>\<open>URL\<close> class, which is
  not part of the repository. The two uses are taken as parameters:
  \<^verbatim>\<open>resolve u\<close> is \<^verbatim>\<open>new URL(u, 'https://rumble.com').toString()\<close> and
  \<^verbatim>\<open>unparam u\<close> is \<^verbatim>\<open>new URL(u)\<close> with \<^verbatim>\<open>search\<close> and \<^verbatim>\<open>hash\<close> set to the
  empty string, printed again; both are \<open>None\<close> where the constructor throws.
\<close>

record url_api =
  resolve :: "string \<Rightarrow> string option"
  unparam :: "string \<Rightarrow> string option"

definition toAbs :: "url_api \<Rightarrow> string \<Rightarrow> string" where
  "toAbs api u = (case resolve api u of Some a \<Rightarrow> a | None \<Rightarrow> u)"

text \<open>The regular expression \<^verbatim>\<open>/\/+$/\<close> replaced by the empty string.\<close>

definition stripTrailingSlashes :: "string \<Rightarrow> string" where
  "stripTrailingSlashes u = rev (dropWhile (\<lambda>c. c = CHR ''/'') (rev u))"

definition stripParams :: "url_api \<Rightarrow> string \<Rightarrow> string" where
  "stripParams api u =
     stripTrailingSlashes (case unparam api u of Some x \<Rightarrow> x | None \<Rightarrow> u)"

text \<open>
  The canonical absolute form of a submitted string in the words of the design: the string
  resolved against \<^verbatim>\<open>https://rumble.com\<close> and printed without query and fragment, as the
  URL class gives them; where the class rejects a string, the string stays as it is. The
  queue of a job is compared with it below.
\<close>

definition canonical :: "url_api \<Rightarrow> string \<Rightarrow> string" where
  "canonical api u =
     (let a = (case resolve api u of Some a \<Rightarrow> a | None \<Rightarrow> u)
      in case unparam api a of Some x \<Rightarrow> x | None \<Rightarrow> a)"

text \<open>
  \<^verbatim>\<open>Array.from(new Set(arr))\<close>: the elements in the order of their first occurrence.
  The accumulator holds the set built so far, newest first.
\<close>

fun uniq_into :: "'a list \<Rightarrow> 'a list \<Rightarrow> 'a list" where
  "uniq_into seen [] = rev seen"
| "uniq_into seen (x # xs) =
     (if x \<in> set seen then uniq_into seen xs else uniq_into (x # seen) xs)"

definition uniq :: "'a list \<Rightarrow> 'a list" where
  "uniq xs = uniq_into [] xs"

subsection \<open>Messages and browser calls\<close>

type_synonym tab_id = nat
type_synonym timer_id = nat

text \<open>
  The four broadcasts of the job: \<^verbatim>\<open>playlist-apply-error {message}\<close>,
  \<^verbatim>\<open>playlist-apply-started {total, mode}\<close>,
  \<^verbatim>\<open>playlist-apply-progress {done, total, currentVideoUrl, note}\<close> and
  \<^verbatim>\<open>playlist-apply-complete {successCount, total, note}\<close>.
\<close>

datatype message =
    Playlist_apply_error string
  | Playlist_apply_started nat string
  | Playlist_apply_progress nat nat "string option" string
  | Playlist_apply_complete nat nat string

datatype chrome_call =
    Runtime_sendMessage message
  | Tabs_create string
  | Tabs_update "tab_id option" string
  | Tabs_remove tab_id
  | Scripting_executeScript tab_id
  | Tabs_sendMessage tab_id "string list" "string list" bool

subsection \<open>The job and the state of the closure\<close>

text \<open>
  The object literal assigned to \<^verbatim>\<open>job\<close> in \<^verbatim>\<open>start\<close>. The field \<^verbatim>\<open>done\<close> is
  \<open>done_count\<close> here; \<open>onWorkerMsg\<close> records whether the field holds a handler.
\<close>

record job =
  playlistIds :: "string list"
  playlistNames :: "string list"
  clearAll :: bool
  perVideoTimeoutMs :: nat
  queue :: "string list"
  total :: nat
  done_count :: nat
  currentUrl :: "string option"
  tabId :: "tab_id option"
  debugKeepTab :: bool
  videoTimer :: "timer_id option"
  onWorkerMsg :: bool

text \<open>
  Besides \<^verbatim>\<open>job\<close>, the state holds what the event loop keeps for the closure: whether
  \<^verbatim>\<open>onUpdated\<close> is registered with \<^verbatim>\<open>chrome.tabs.onUpdated\<close>, how many worker handlers
  are registered with \<^verbatim>\<open>chrome.runtime.onMessage\<close> (they all read the same variable
  \<^verbatim>\<open>job\<close>, so only their number matters), the timers that are armed (identifier and
  delay), the callbacks of \<^verbatim>\<open>tabs.create\<close> and \<^verbatim>\<open>executeScript\<close> still to come, and the
  log of browser calls.
\<close>

record bg =
  job :: "job option"
  onUpdatedAdded :: bool
  workerHandlers :: nat
  timers :: "(timer_id \<times> nat) list"
  nextTimerId :: timer_id
  creating :: nat
  injecting :: "tab_id list"
  calls :: "chrome_call list"

text \<open>JavaScript truthiness of an optional number: \<^verbatim>\<open>null\<close>, \<^verbatim>\<open>undefined\<close> and 0 are falsy.\<close>

fun truthy :: "nat option \<Rightarrow> bool" where
  "truthy None = False"
| "truthy (Some n) = (n \<noteq> 0)"

definition call :: "chrome_call \<Rightarrow> bg \<Rightarrow> bg" where
  "call c s = s\<lparr>calls := calls s @ [c]\<rparr>"

definition sendMessage :: "message \<Rightarrow> bg \<Rightarrow> bg" where
  "sendMessage m s = call (Runtime_sendMessage m) s"

definition clearTimeout :: "timer_id \<Rightarrow> bg \<Rightarrow> bg" where
  "clearTimeout t s = s\<lparr>timers := filter (\<lambda>p. fst p \<noteq> t) (timers s)\<rparr>"

definition setTimeout :: "nat \<Rightarrow> bg \<Rightarrow> timer_id \<times> bg" where
  "setTimeout delay s =
     (nextTimerId s,
      s\<lparr>timers := timers s @ [(nextTimerId s, delay)], nextTimerId := Suc (nextTimerId s)\<rparr>)"

text \<open>\<^verbatim>\<open>if (job.videoTimer) clearTimeout(job.videoTimer)\<close>\<close>

definition clearVideoTimer :: "job \<Rightarrow> bg \<Rightarrow> bg" where
  "clearVideoTimer j s =
     (case videoTimer j of
        None \<Rightarrow> s
      | Some t \<Rightarrow> if t \<noteq> 0 then clearTimeout t s else s)"

definition cleanup :: "bg \<Rightarrow> bg" where
  "cleanup s =
     (case job s of
        None \<Rightarrow> s
      | Some j \<Rightarrow>
          let s1 = (case tabId j of
                      None \<Rightarrow> s
                    | Some t \<Rightarrow> if \<not> debugKeepTab j \<and> t \<noteq> 0 then call (Tabs_remove t) s else s);
              s2 = s1\<lparr>onUpdatedAdded := False\<rparr>;
              s3 = (if onWorkerMsg j then s2\<lparr>workerHandlers := workerHandlers s2 - 1\<rparr> else s2);
              s4 = clearVideoTimer j s3
          in s4\<lparr>job := None\<rparr>)"

text \<open>
  \<^verbatim>\<open>sendProgress(note)\<close> reads \<^verbatim>\<open>job\<close>; it is only called where \<^verbatim>\<open>job\<close> is set.
  \<^verbatim>\<open>job.currentUrl || null\<close> turns the empty string into \<^verbatim>\<open>null\<close>. The two constant
  fields of the event (\<^verbatim>\<open>page: null\<close>, \<^verbatim>\<open>processedThisPage: 1\<close>) are left out.
\<close>

definition sendProgress :: "job \<Rightarrow> string \<Rightarrow> bg \<Rightarrow> bg" where
  "sendProgress j note s =
     sendMessage
       (Playlist_apply_progress (done_count j) (total j)
          (case currentUrl j of None \<Rightarrow> None | Some u \<Rightarrow> if u = [] then None else Some u)
          note) s"

text \<open>\<^verbatim>\<open>next()\<close>\<close>

definition next_video :: "bg \<Rightarrow> bg" where
  "next_video s =
     (case job s of
        None \<Rightarrow> s
      | Some j \<Rightarrow>
          let s1 = (if truthy (videoTimer j)
                    then (clearVideoTimer j s)\<lparr>job := Some (j\<lparr>videoTimer := None\<rparr>)\<rparr>
                    else s);
              j1 = (if truthy (videoTimer j) then j\<lparr>videoTimer := None\<rparr> else j)
          in (case queue j1 of
                [] \<Rightarrow>
                  cleanup
                    (sendMessage
                       (Playlist_apply_complete (done_count j1) (total j1) ''All videos processed.'')
                       s1)
              | u # rest \<Rightarrow>
                  call (Tabs_update (tabId j1) u)
                    (s1\<lparr>job := Some (j1\<lparr>currentUrl := Some u, queue := rest\<rparr>)\<rparr>)))"

text \<open>
  The payload of the runtime message \<^verbatim>\<open>applyPlaylistsToVideos\<close>; a field that is absent
  is \<open>None\<close> and takes the default of the destructuring pattern in \<^verbatim>\<open>start\<close>.
\<close>

record payload =
  arg_playlistIds :: "string list option"
  arg_playlistNames :: "string list option"
  arg_videoUrls :: "string list option"
  arg_debugKeepTab :: "bool option"
  arg_clearAll :: "bool option"
  arg_perVideoTimeoutMs :: "nat option"

definition orElse :: "'a option \<Rightarrow> 'a \<Rightarrow> 'a" where
  "orElse x d = (case x of None \<Rightarrow> d | Some v \<Rightarrow> v)"

definition unique_targets :: "url_api \<Rightarrow> string list \<Rightarrow> string list" where
  "unique_targets api videoUrls = uniq (map (stripParams api) (map (toAbs api) videoUrls))"

definition start :: "url_api \<Rightarrow> payload \<Rightarrow> bg \<Rightarrow> bg" where
  "start api p s =
     (let s0 = cleanup s;
          ids = orElse (arg_playlistIds p) [];
          names = orElse (arg_playlistNames p) [];
          videoUrls = orElse (arg_videoUrls p) [];
          keep = orElse (arg_debugKeepTab p) False;
          clear = orElse (arg_clearAll p) False;
          timeout = orElse (arg_perVideoTimeoutMs p) 30000;
          unique = unique_targets api videoUrls
      in case unique of
           [] \<Rightarrow> sendMessage (Playlist_apply_error ''Missing videos or playlists.'') s0
         | first # _ \<Rightarrow>
             if \<not> clear \<and> ids = [] \<and> names = []
             then sendMessage (Playlist_apply_error ''Missing videos or playlists.'') s0
             else
               let j = \<lparr>playlistIds = ids, playlistNames = names, clearAll = clear,
                        perVideoTimeoutMs = timeout, queue = unique, total = length unique,
                        done_count = 0, currentUrl = None, tabId = None, debugKeepTab = keep,
                        videoTimer = None, onWorkerMsg = False\<rparr>;
                   s1 = s0\<lparr>job := Some j\<rparr>;
                   s2 = sendMessage
                          (Playlist_apply_started (total j) (if clearAll j then ''clear'' else ''set''))
                          s1;
                   s3 = call (Tabs_create first) s2
               in s3\<lparr>creating := Suc (creating s3)\<rparr>)"

text \<open>
  The guard of \<^verbatim>\<open>start\<close> and the object literal it assigns to \<^verbatim>\<open>job\<close>, on their own.
\<close>

definition rejected :: "url_api \<Rightarrow> payload \<Rightarrow> bool" where
  "rejected api p =
     (unique_targets api (orElse (arg_videoUrls p) []) = []
      \<or> (\<not> orElse (arg_clearAll p) False
          \<and> orElse (arg_playlistIds p) [] = [] \<and> orElse (arg_playlistNames p) [] = []))"

definition new_job :: "url_api \<Rightarrow> payload \<Rightarrow> job" where
  "new_job api p =
     \<lparr>playlistIds = orElse (arg_playlistIds p) [],
      playlistNames = orElse (arg_playlistNames p) [],
      clearAll = orElse (arg_clearAll p) False,
      perVideoTimeoutMs = orElse (arg_perVideoTimeoutMs p) 30000,
      queue = unique_targets api (orElse (arg_videoUrls p) []),
      total = length (unique_targets api (orElse (arg_videoUrls p) [])),
      done_count = 0, currentUrl = None, tabId = None,
      debugKeepTab = orElse (arg_debugKeepTab p) False,
      videoTimer = None, onWorkerMsg = False\<rparr>"

text \<open>
  The callback of \<^verbatim>\<open>chrome.tabs.create\<close>. It reads the variable \<^verbatim>\<open>job\<close> when it runs;
  where \<^verbatim>\<open>job\<close> is \<^verbatim>\<open>null\<close> by then, reading \<^verbatim>\<open>job.total\<close> or writing
  \<^verbatim>\<open>job.tabId\<close> throws a TypeError and the callback ends without any effect.
  \<^verbatim>\<open>queue.shift()\<close> of an empty array is \<^verbatim>\<open>undefined\<close>.
\<close>

definition tabCreated :: "tab_id option \<Rightarrow> bg \<Rightarrow> bg" where
  "tabCreated tab s =
     (case job s of
        None \<Rightarrow> s
      | Some j \<Rightarrow>
          if \<not> truthy tab
          then cleanup
                 (sendMessage (Playlist_apply_complete 0 (total j) ''Failed to create hidden tab.'') s)
          else
            let j1 = j\<lparr>tabId := tab, onWorkerMsg := True\<rparr>;
                j2 = (case queue j1 of
                        [] \<Rightarrow> j1\<lparr>currentUrl := None\<rparr>
                      | u # rest \<Rightarrow> j1\<lparr>currentUrl := Some u, queue := rest\<rparr>)
            in s\<lparr>job := Some j2, onUpdatedAdded := True, workerHandlers := Suc (workerHandlers s)\<rparr>)"

text \<open>
  \<^verbatim>\<open>onUpdated(tabId, changeInfo, tab)\<close>, with \<open>complete\<close> for
  \<^verbatim>\<open>changeInfo.status === 'complete'\<close>. It runs only while it is registered.
\<close>

definition onUpdated :: "tab_id \<Rightarrow> bool \<Rightarrow> bg \<Rightarrow> bg" where
  "onUpdated t complete s =
     (if \<not> onUpdatedAdded s then s
      else case job s of
             None \<Rightarrow> s
           | Some j \<Rightarrow>
               if tabId j \<noteq> Some t then s
               else if \<not> complete then s
               else call (Scripting_executeScript t) (s\<lparr>injecting := injecting s @ [t]\<rparr>))"

definition bump_done :: "job \<Rightarrow> job" where
  "bump_done j = j\<lparr>done_count := done_count j + 1\<rparr>"

text \<open>
  What the three terminal paths share: \<^verbatim>\<open>job.done += 1; sendProgress(note); next();\<close>
\<close>

definition finish_video :: "string \<Rightarrow> job \<Rightarrow> bg \<Rightarrow> bg" where
  "finish_video note j s =
     next_video (sendProgress (bump_done j) note (s\<lparr>job := Some (bump_done j)\<rparr>))"

text \<open>
  The callback of \<^verbatim>\<open>executeScript\<close> for tab \<open>t\<close>, with \<open>lastError\<close> for
  \<^verbatim>\<open>chrome.runtime.lastError\<close> being set. With \<^verbatim>\<open>job\<close> equal to \<^verbatim>\<open>null\<close> both branches
  throw before they have any effect (\<^verbatim>\<open>job.done\<close>, and \<^verbatim>\<open>job.perVideoTimeoutMs\<close> among
  the arguments of \<^verbatim>\<open>setTimeout\<close>).
\<close>

definition injected :: "tab_id \<Rightarrow> bool \<Rightarrow> bg \<Rightarrow> bg" where
  "injected t lastError s =
     (case job s of
        None \<Rightarrow> s
      | Some j \<Rightarrow>
          if lastError then finish_video ''Inject failed; skipping.'' j s
          else
            let (tid, s1) = setTimeout (perVideoTimeoutMs j) s;
                s2 = s1\<lparr>job := Some (j\<lparr>videoTimer := Some tid\<rparr>)\<rparr>
            in call (Tabs_sendMessage t (playlistIds j) (playlistNames j) (clearAll j)) s2)"

text \<open>The \<^verbatim>\<open>setTimeout\<close> callback; \<^verbatim>\<open>job.done += 1\<close> throws where \<^verbatim>\<open>job\<close> is \<^verbatim>\<open>null\<close>.\<close>

definition timeoutFired :: "bg \<Rightarrow> bg" where
  "timeoutFired s =
     (case job s of
        None \<Rightarrow> s
      | Some j \<Rightarrow> finish_video ''Timeout; skipping.'' j s)"

text \<open>
  \<^verbatim>\<open>job.onWorkerMsg\<close>, the handler registered with \<^verbatim>\<open>chrome.runtime.onMessage\<close>:
  \<open>sender\<close> is \<^verbatim>\<open>sender.tab.id\<close> (\<open>None\<close> without \<^verbatim>\<open>sender.tab\<close>), \<open>ty\<close> is
  \<^verbatim>\<open>msg.type\<close>, \<open>ok\<close> is \<^verbatim>\<open>msg.ok\<close> and \<open>reason\<close> is \<^verbatim>\<open>msg.reason\<close>.
\<close>

definition worker_note :: "job \<Rightarrow> bool \<Rightarrow> string option \<Rightarrow> string" where
  "worker_note j ok reason =
     (if ok then (if clearAll j then ''Cleared'' else ''Updated'')
      else ''Skipped: '' @
           (case reason of None \<Rightarrow> ''unknown'' | Some r \<Rightarrow> if r = [] then ''unknown'' else r))"

definition handler :: "tab_id option \<Rightarrow> string \<Rightarrow> bool \<Rightarrow> string option \<Rightarrow> bg \<Rightarrow> bg" where
  "handler sender ty ok reason s =
     (case job s of
        None \<Rightarrow> s
      | Some j \<Rightarrow>
          if sender = None \<or> sender \<noteq> tabId j then s
          else if ty = ''videoWorkerResult''
          then
            let s1 = (if truthy (videoTimer j) then clearVideoTimer j s else s);
                j1 = (if truthy (videoTimer j) then j\<lparr>videoTimer := None\<rparr> else j)
            in finish_video (worker_note j1 ok reason) j1 s1
          else s)"

subsection \<open>The event loop\<close>

text \<open>
  One event is one callback run to its end. \<open>Start\<close> is a runtime message that calls
  \<^verbatim>\<open>start\<close> (\<^verbatim>\<open>applyPlaylistsToVideos\<close>, or \<^verbatim>\<open>clearPlaylistsFromVideos\<close> with
  \<^verbatim>\<open>clearAll\<close> set). An event that cannot happen in a state (the callback of a call that
  was never made, a timer that is not armed) leaves the state as it is. A runtime message
  is given to every registered worker handler in turn.
\<close>

datatype event =
    Start payload
  | TabCreated "tab_id option"
  | TabUpdated tab_id bool
  | Injected tab_id bool
  | TimerFired timer_id
  | WorkerMessage "tab_id option" string bool "string option"

fun step :: "url_api \<Rightarrow> bg \<Rightarrow> event \<Rightarrow> bg" where
  "step api s (Start p) = start api p s"
| "step api s (TabCreated tab) =
     (if creating s = 0 then s else tabCreated tab (s\<lparr>creating := creating s - 1\<rparr>))"
| "step api s (TabUpdated t complete) = onUpdated t complete s"
| "step api s (Injected t lastError) =
     (if t \<in> set (injecting s)
      then injected t lastError (s\<lparr>injecting := remove1 t (injecting s)\<rparr>)
      else s)"
| "step api s (TimerFired tid) =
     (if tid \<in> fst ` set (timers s) then timeoutFired (clearTimeout tid s) else s)"
| "step api s (WorkerMessage sender ty ok reason) =
     ((handler sender ty ok reason) ^^ workerHandlers s) s"

definition run :: "url_api \<Rightarrow> bg \<Rightarrow> event list \<Rightarrow> bg" where
  "run api s evs = foldl (step api) s evs"

text \<open>The service worker right after it was loaded.\<close>

definition initial :: bg where
  "initial = \<lparr>job = None, onUpdatedAdded = False, workerHandlers = 0, timers = [],
              nextTimerId = 1, creating = 0, injecting = [], calls = []\<rparr>"

text \<open>The broadcasts among the calls, and the \<^verbatim>\<open>done\<close> values of the progress events.\<close>

fun messages_of :: "chrome_call list \<Rightarrow> message list" where
  "messages_of [] = []"
| "messages_of (Runtime_sendMessage m # cs) = m # messages_of cs"
| "messages_of (_ # cs) = messages_of cs"

fun dones_of :: "message list \<Rightarrow> nat list" where
  "dones_of [] = []"
| "dones_of (Playlist_apply_progress d _ _ _ # ms) = d # dones_of ms"
| "dones_of (_ # ms) = dones_of ms"

section \<open>The worker that runs inside the video page\<close>

text \<open>
  \<^verbatim>\<open>playlist-automator.js\<close> answers the request \<^verbatim>\<open>videoWorkerRun\<close> with one
  \<^verbatim>\<open>videoWorkerResult\<close>.

  A string is the list of its UTF-16 code units, and a \<open>char\<close> is a code unit below 256
  (the Latin-1 range); a string with a higher code unit has no counterpart here. On this
  range the white space of \<^verbatim>\<open>String.prototype.trim\<close> is U+0009 to U+000D, U+0020 and
  U+00A0 (the other white space and line terminators of the language lie above it), and
  \<^verbatim>\<open>String.prototype.toLowerCase\<close> adds 32 to \<^verbatim>\<open>A\<close>..\<^verbatim>\<open>Z\<close> and to U+00C0..U+00DE except
  the multiplication sign U+00D7, and changes nothing else.
\<close>

definition is_space :: "char \<Rightarrow> bool" where
  "is_space c = (of_char c \<in> {9, 10, 11, 12, 13, 32, 160 :: nat})"

definition trim :: "string \<Rightarrow> string" where
  "trim s = rev (dropWhile is_space (rev (dropWhile is_space s)))"

definition is_upper :: "nat \<Rightarrow> bool" where
  "is_upper n = (65 \<le> n \<and> n \<le> 90 \<or> 192 \<le> n \<and> n \<le> 222 \<and> n \<noteq> 215)"

definition lower_char :: "char \<Rightarrow> char" where
  "lower_char c =
     (let n = (of_char c :: nat) in if is_upper n then char_of (n + 32) else c)"

definition toLowerCase :: "string \<Rightarrow> string" where
  "toLowerCase s = map lower_char s"

text \<open>\<^verbatim>\<open>arr.filter(Boolean)\<close> on strings keeps the non-empty ones.\<close>

definition nonempty :: "string list \<Rightarrow> string list" where
  "nonempty xs = filter (\<lambda>x. x \<noteq> []) xs"

text \<open>
  An entry of \<^verbatim>\<open>userPlaylists\<close> in \<^verbatim>\<open>chrome.storage.local\<close>; a field is \<open>None\<close> where
  it is \<^verbatim>\<open>null\<close> or missing.
\<close>

record stored_playlist =
  title :: "string option"
  pl_id :: "string option"
  playlist_id :: "string option"
  slug :: "string option"

text \<open>\<^verbatim>\<open>String(p.id ?? p.playlist_id ?? p.slug ?? '').trim()\<close>\<close>

definition stored_id :: "stored_playlist \<Rightarrow> string" where
  "stored_id p =
     trim (case pl_id p of
             Some i \<Rightarrow> i
           | None \<Rightarrow> (case playlist_id p of
                        Some i \<Rightarrow> i
                      | None \<Rightarrow> (case slug p of Some i \<Rightarrow> i | None \<Rightarrow> [])))"

definition stored_key :: "stored_playlist \<Rightarrow> string" where
  "stored_key p = toLowerCase (trim (orElse (title p) []))"

text \<open>
  \<^verbatim>\<open>resolveIdsFromNames(nameList)\<close>, with the stored \<^verbatim>\<open>userPlaylists\<close> as an argument.
  In \<^verbatim>\<open>new Map(pairs)\<close> a later pair replaces an earlier one with the same key.
\<close>

definition resolveIdsFromNames :: "stored_playlist list \<Rightarrow> string list \<Rightarrow> string list" where
  "resolveIdsFromNames userPlaylists nameList =
     (let names = uniq (nonempty (map (\<lambda>s. toLowerCase (trim s)) nameList))
      in if names = [] then []
         else
           let m = map_of (rev (map (\<lambda>p. (stored_key p, stored_id p)) userPlaylists));
               resolved = nonempty (map (\<lambda>n. orElse (m n) []) names)
           in uniq resolved)"

text \<open>The keys by which \<^verbatim>\<open>resolveIdsFromNames\<close> looks names up.\<close>

definition name_keys :: "string list \<Rightarrow> string list" where
  "name_keys ns = uniq (nonempty (map (\<lambda>s. toLowerCase (trim s)) ns))"

text \<open>
  A check box of the overlay: whether it is checked, and whether a click changes it.
  \<^verbatim>\<open>ensureChecked(el, should, {attempts})\<close> clicks until the box shows \<open>should\<close>.
\<close>

record checkbox =
  checked :: bool
  responsive :: bool

definition click :: "checkbox \<Rightarrow> checkbox" where
  "click cb = (if responsive cb then cb\<lparr>checked := \<not> checked cb\<rparr> else cb)"

fun ensureChecked :: "nat \<Rightarrow> bool \<Rightarrow> checkbox \<Rightarrow> bool" where
  "ensureChecked 0 should cb = False"
| "ensureChecked (Suc attempts) should cb =
     (if checked cb = should then True
      else if checked (click cb) = should then True
      else ensureChecked attempts should (click cb))"

text \<open>
  An item of the playlist list in the overlay, as \<^verbatim>\<open>extractPlaylistMeta\<close> reads it:
  its id (empty when none is found), its displayed name and its check box.
\<close>

record overlay_item =
  item_id :: string
  nameRaw :: string
  cb :: checkbox

text \<open>
  The overlay after the list panel was opened and all pages of the list were loaded:
  whether \<^verbatim>\<open>findListContainer\<close> finds the list, the items in it and the check boxes in it.
\<close>

record overlay =
  container :: bool
  items :: "overlay_item list"
  checkboxes :: "checkbox list"

text \<open>\<^verbatim>\<open>snapshotOverlayPlaylists\<close>: in \<open>byId\<close> the last item with an id wins, in \<open>byName\<close> the first.\<close>

definition byId :: "overlay_item list \<Rightarrow> string \<Rightarrow> overlay_item option" where
  "byId its = map_of (rev (map (\<lambda>i. (item_id i, i)) (filter (\<lambda>i. item_id i \<noteq> []) its)))"

definition byName :: "overlay_item list \<Rightarrow> string \<Rightarrow> overlay_item option" where
  "byName its =
     map_of (map (\<lambda>i. (toLowerCase (nameRaw i), i)) (filter (\<lambda>i. nameRaw i \<noteq> []) its))"

record entry =
  entry_id :: "string option"
  entry_name :: "string option"

record ensured =
  checked_list :: "entry list"
  skipped :: "entry list"
  missing :: "entry list"

definition no_entries :: ensured where
  "no_entries = \<lparr>checked_list = [], skipped = [], missing = []\<rparr>"

text \<open>The body of the loop over the wanted ids in \<^verbatim>\<open>ensurePlaylistsChecked\<close>.\<close>

fun check_ids :: "overlay_item list \<Rightarrow> string list \<Rightarrow> ensured \<Rightarrow> ensured" where
  "check_ids its [] r = r"
| "check_ids its (i # ids) r =
     (case byId its i of
        None \<Rightarrow>
          check_ids its ids (r\<lparr>missing := missing r @ [\<lparr>entry_id = Some i, entry_name = None\<rparr>]\<rparr>)
      | Some meta \<Rightarrow>
          if checked (cb meta)
          then check_ids its ids
                 (r\<lparr>skipped := skipped r @ [\<lparr>entry_id = Some i, entry_name = Some (nameRaw meta)\<rparr>]\<rparr>)
          else if ensureChecked 20 True (cb meta)
          then check_ids its ids
                 (r\<lparr>checked_list :=
                      checked_list r @ [\<lparr>entry_id = Some i, entry_name = Some (nameRaw meta)\<rparr>]\<rparr>)
          else check_ids its ids r)"

text \<open>The loop over the wanted names; \<^verbatim>\<open>meta.id || null\<close> is \<open>None\<close> for the empty id.\<close>

definition id_or_null :: "string \<Rightarrow> string option" where
  "id_or_null i = (if i = [] then None else Some i)"

fun check_names :: "overlay_item list \<Rightarrow> string list \<Rightarrow> ensured \<Rightarrow> ensured" where
  "check_names its [] r = r"
| "check_names its (n # names) r =
     (case byName its n of
        None \<Rightarrow>
          check_names its names
            (r\<lparr>missing := missing r @ [\<lparr>entry_id = None, entry_name = Some n\<rparr>]\<rparr>)
      | Some meta \<Rightarrow>
          if checked (cb meta)
          then check_names its names
                 (r\<lparr>skipped :=
                      skipped r @ [\<lparr>entry_id = id_or_null (item_id meta), entry_name = Some (nameRaw meta)\<rparr>]\<rparr>)
          else if ensureChecked 20 True (cb meta)
          then check_names its names
                 (r\<lparr>checked_list :=
                      checked_list r @
                      [\<lparr>entry_id = id_or_null (item_id meta), entry_name = Some (nameRaw meta)\<rparr>]\<rparr>)
          else check_names its names r)"

definition ensurePlaylistsChecked ::
  "stored_playlist list \<Rightarrow> overlay \<Rightarrow> string list \<Rightarrow> string list \<Rightarrow> ensured" where
  "ensurePlaylistsChecked userPlaylists ov wantedIds wantedNames =
     (if \<not> container ov then no_entries
      else
        let ids0 = uniq (nonempty (map trim wantedIds));
            names = uniq (nonempty (map (\<lambda>s. toLowerCase (trim s)) wantedNames));
            ids = (if ids0 = [] \<and> names \<noteq> [] then resolveIdsFromNames userPlaylists names else ids0)
        in if ids \<noteq> [] then check_ids (items ov) ids no_entries
           else check_names (items ov) names no_entries)"

text \<open>\<^verbatim>\<open>ensureAllPlaylistsUnchecked\<close>: the counters \<^verbatim>\<open>unchecked\<close> and \<^verbatim>\<open>hadNone\<close>.\<close>

fun uncheck_all :: "checkbox list \<Rightarrow> nat \<times> nat \<Rightarrow> nat \<times> nat" where
  "uncheck_all [] r = r"
| "uncheck_all (c # cs) (unchecked, hadNone) =
     (if checked c
      then (if ensureChecked 20 False c then uncheck_all cs (unchecked + 1, hadNone)
            else uncheck_all cs (unchecked, hadNone))
      else uncheck_all cs (unchecked, hadNone + 1))"

definition ensureAllPlaylistsUnchecked :: "overlay \<Rightarrow> nat \<times> nat" where
  "ensureAllPlaylistsUnchecked ov = (if \<not> container ov then (0, 0) else uncheck_all (checkboxes ov) (0, 0))"

text \<open>
  \<^verbatim>\<open>confirmAndCloseOverlay(overlay, context)\<close> with a context of mode \<^verbatim>\<open>set\<close> or
  \<^verbatim>\<open>clear\<close>: \<open>closed\<close> is what \<^verbatim>\<open>waitForOverlayCloseOrToast\<close> returns, \<open>verified\<close>
  what \<^verbatim>\<open>verifyVideoOverlayState\<close> returns, \<open>None\<close> where it throws.
\<close>

definition confirmAndCloseOverlay :: "bool \<Rightarrow> bool option \<Rightarrow> bool" where
  "confirmAndCloseOverlay closed verified =
     (case verified of Some v \<Rightarrow> closed \<and> v | None \<Rightarrow> closed)"

text \<open>
  What the worker meets on the page: the stored playlists, the outcome of
  \<^verbatim>\<open>openSaveOverlayFromVideoPage\<close> (the reason of the failure, or the overlay), and the two
  observations of the confirmation step.
\<close>

record page =
  userPlaylists :: "stored_playlist list"
  opened :: "string + overlay"
  closed :: bool
  verified :: "bool option"

datatype details =
    No_details
  | Cleared nat nat bool
  | Ensured ensured bool

text \<open>The message \<^verbatim>\<open>videoWorkerResult {ok, reason, details}\<close>.\<close>

record video_worker_result =
  res_ok :: bool
  res_reason :: "string option"
  res_details :: details

text \<open>
  The handler of \<^verbatim>\<open>videoWorkerRun\<close> with the payload
  \<^verbatim>\<open>{playlistIds, playlistNames, clearAll}\<close>. Its first lines compute the ids it works
  with (logged as \<^verbatim>\<open>effectiveIds\<close>): the ids of the payload, or, where there are none,
  the ids that the names resolve to.
\<close>

definition effectiveIds :: "stored_playlist list \<Rightarrow> string list \<Rightarrow> string list \<Rightarrow> string list" where
  "effectiveIds stored wantedIds wantedNames =
     (let namesRaw = uniq (nonempty (map trim wantedNames));
          ids0 = uniq (nonempty (map trim wantedIds))
      in if ids0 = [] \<and> namesRaw \<noteq> [] then resolveIdsFromNames stored namesRaw else ids0)"

definition videoWorkerRun ::
  "page \<Rightarrow> string list \<Rightarrow> string list \<Rightarrow> bool \<Rightarrow> video_worker_result" where
  "videoWorkerRun pg wantedIds wantedNames clear =
     (let namesRaw = uniq (nonempty (map trim wantedNames));
          ids = effectiveIds (userPlaylists pg) wantedIds wantedNames
      in case opened pg of
           Inl why \<Rightarrow> \<lparr>res_ok = False, res_reason = Some why, res_details = No_details\<rparr>
         | Inr ov \<Rightarrow>
             let confirmed = confirmAndCloseOverlay (closed pg) (verified pg)
             in if clear
                then
                  let (unchecked, hadNone) = ensureAllPlaylistsUnchecked ov;
                      ok = True
                  in \<lparr>res_ok = (ok \<and> confirmed),
                      res_reason =
                        (if ok
                         then (if confirmed then None
                               else Some ''overlay did not confirm/close in time or post-verify failed'')
                         else Some ''no matching playlists found''),
                      res_details = Cleared unchecked hadNone confirmed\<rparr>
                else
                  let e = ensurePlaylistsChecked (userPlaylists pg) ov ids
                            (if ids \<noteq> [] then [] else namesRaw);
                      ok = (length (checked_list e) + length (skipped e) > 0
                            \<or> (ids = [] \<and> namesRaw = []))
                  in \<lparr>res_ok = (ok \<and> confirmed),
                      res_reason =
                        (if ok
                         then (if confirmed then None
                               else Some ''overlay did not confirm/close in time or post-verify failed'')
                         else Some ''no matching playlists found''),
                      res_details = Ensured e confirmed\<rparr>)"

section \<open>The listener of \<^verbatim>\<open>chrome.tabs.onRemoved\<close>\<close>

text \<open>
  The background script has one listener for the removal of a tab. It works on the
  registries of the other jobs of the script: three objects from a key to an entry with a
  \<^verbatim>\<open>tabId\<close> (kept here as the list of keys with that \<^verbatim>\<open>tabId\<close>, in the order of
  \<^verbatim>\<open>Object.keys\<close>), two objects from a tab id to a resolver (a resolver of
  \<^verbatim>\<open>raidTargetResolvers\<close> deletes its key of \<^verbatim>\<open>pendingScrapes\<close> and itself, and closes
  its tab; the promise it resolves is outside the model), the three variables of the
  legacy bulk job and the two maps of \<^verbatim>\<open>__RLO_LAST_APPLIED\<close>. The state of
  \<^verbatim>\<open>DirectVideoApplyJob\<close> is the field \<open>direct\<close>.
\<close>

record background =
  pendingScrapes :: "(string \<times> tab_id) list"
  pendingRaidCommands :: "(string \<times> tab_id) list"
  pendingPlaylistUpdates :: "(string \<times> tab_id) list"
  pendingPlaylistScrapes :: "(string \<times> tab_id) list"
  playlistScrapeResolvers :: "(tab_id \<times> string) list"
  raidTargetResolvers :: "(tab_id \<times> string) list"
  currentBulkTabId :: "tab_id option"
  pendingBulkJobs :: "string list"
  bulkScriptInjected :: bool
  lastAppliedStreamer :: "(tab_id \<times> bool) list"
  lastAppliedGamify :: "(tab_id \<times> bool) list"
  closed_tabs :: "tab_id list"
  direct :: bg

text \<open>
  The local function \<^verbatim>\<open>cleanup(obj)\<close> of the listener: the first key whose entry has the
  tab id is deleted, unless that key is the empty string.
\<close>

definition drop_pending :: "tab_id \<Rightarrow> (string \<times> tab_id) list \<Rightarrow> (string \<times> tab_id) list" where
  "drop_pending t obj =
     (case find (\<lambda>e. snd e = t) obj of
        None \<Rightarrow> obj
      | Some (k, _) \<Rightarrow> if k = [] then obj else filter (\<lambda>e. fst e \<noteq> k) obj)"

definition delete_key :: "'k \<Rightarrow> ('k \<times> 'v) list \<Rightarrow> ('k \<times> 'v) list" where
  "delete_key k obj = filter (\<lambda>e. fst e \<noteq> k) obj"

definition onRemoved :: "tab_id \<Rightarrow> background \<Rightarrow> background" where
  "onRemoved t b =
     (let b1 = b\<lparr>pendingScrapes := drop_pending t (pendingScrapes b),
                 pendingRaidCommands := drop_pending t (pendingRaidCommands b),
                 pendingPlaylistUpdates := drop_pending t (pendingPlaylistUpdates b)\<rparr>;
          b2 = (case map_of (playlistScrapeResolvers b1) t of
                  None \<Rightarrow> b1
                | Some k \<Rightarrow>
                    b1\<lparr>closed_tabs := closed_tabs b1 @ [t],
                       pendingPlaylistScrapes := delete_key k (pendingPlaylistScrapes b1),
                       playlistScrapeResolvers := delete_key t (playlistScrapeResolvers b1)\<rparr>);
          b3 = (case map_of (raidTargetResolvers b2) t of
                  None \<Rightarrow> b2
                | Some k \<Rightarrow>
                    b2\<lparr>closed_tabs := closed_tabs b2 @ [t],
                       pendingScrapes := delete_key k (pendingScrapes b2),
                       raidTargetResolvers := delete_key t (raidTargetResolvers b2)\<rparr>);
          b4 = (if currentBulkTabId b3 = Some t
                then b3\<lparr>currentBulkTabId := None, pendingBulkJobs := [], bulkScriptInjected := False\<rparr>
                else b3)
      in b4\<lparr>lastAppliedStreamer := delete_key t (lastAppliedStreamer b4),
            lastAppliedGamify := delete_key t (lastAppliedGamify b4)\<rparr>)"

section \<open>Runs of one job\<close>

text \<open>
  One job from the moment the service worker was loaded: the message that starts it, then
  any events.
\<close>

definition job_trace :: "url_api \<Rightarrow> payload \<Rightarrow> event list \<Rightarrow> bg" where
  "job_trace api p evs = run api initial (Start p # evs)"

text \<open>The targets of a payload after normalisation, and the mode that its started event reports.\<close>

definition targets :: "url_api \<Rightarrow> payload \<Rightarrow> string list" where
  "targets api p = unique_targets api (orElse (arg_videoUrls p) [])"

definition mode :: "payload \<Rightarrow> string" where
  "mode p = (if orElse (arg_clearAll p) False then ''clear'' else ''set'')"

definition broadcasts :: "bg \<Rightarrow> message list" where
  "broadcasts s = messages_of (calls s)"

fun completes_of :: "message list \<Rightarrow> (nat \<times> nat \<times> string) list" where
  "completes_of [] = []"
| "completes_of (Playlist_apply_complete c n note # ms) = (c, n, note) # completes_of ms"
| "completes_of (_ # ms) = completes_of ms"

text \<open>The calls that create, navigate or close a tab.\<close>

fun tab_calls :: "chrome_call list \<Rightarrow> chrome_call list" where
  "tab_calls [] = []"
| "tab_calls (Tabs_create u # cs) = Tabs_create u # tab_calls cs"
| "tab_calls (Tabs_update t u # cs) = Tabs_update t u # tab_calls cs"
| "tab_calls (Tabs_remove t # cs) = Tabs_remove t # tab_calls cs"
| "tab_calls (_ # cs) = tab_calls cs"

definition count_up :: "nat \<Rightarrow> nat list" where
  "count_up k = [1..<Suc k]"

text \<open>
  What holds of every state of one job: the progress events count 1, 2, ...; while the
  job waits for its tab nothing else is pending; while it runs, the targets that are done,
  the active one and the queue add up to the total; after it, one completion was sent.
\<close>

definition job_inv :: "nat \<Rightarrow> bg \<Rightarrow> bool" where
  "job_inv N s =
     (let ms = messages_of (calls s); k = length (dones_of ms) in
      dones_of ms = count_up k \<and>
      (case job s of
         None \<Rightarrow>
           (completes_of ms = [(0, N, ''Failed to create hidden tab.'')] \<and> k = 0
            \<or> completes_of ms = [(N, N, ''All videos processed.'')] \<and> k = N)
           \<and> completes_of [last ms] \<noteq> [] \<and> ms \<noteq> []
       | Some j \<Rightarrow>
           completes_of ms = [] \<and> total j = N \<and> done_count j = k \<and>
           (case tabId j of
              None \<Rightarrow>
                k = 0 \<and> 0 < N \<and> length (queue j) = N \<and> creating s = 1 \<and> timers s = [] \<and>
                injecting s = [] \<and> workerHandlers s = 0 \<and> \<not> onUpdatedAdded s
            | Some t \<Rightarrow> k + length (queue j) + 1 = N \<and> creating s = 0 \<and> workerHandlers s = 1)))"

text \<open>
  The ways in which the page of the active target can end it: the injection fails, the
  worker never answers and the timer fires, or the worker answers. \<open>outcome_events\<close> are
  the events of such an end, in the state in which the target is active: the page reports
  that it is loaded, the callback of the injection runs, and then, where the injection
  succeeded, either the timer that this callback has armed fires or the message of the
  worker arrives. \<open>play\<close> lets the targets of a job end one after the other.
\<close>

datatype outcome = InjectFails | TimesOut | Responds bool "string option"

definition outcome_events :: "bg \<Rightarrow> outcome \<Rightarrow> event list" where
  "outcome_events s out =
     (case job s of
        None \<Rightarrow> []
      | Some j \<Rightarrow>
          (case tabId j of
             None \<Rightarrow> []
           | Some t \<Rightarrow>
               (case out of
                  InjectFails \<Rightarrow> [TabUpdated t True, Injected t True]
                | TimesOut \<Rightarrow> [TabUpdated t True, Injected t False, TimerFired (nextTimerId s)]
                | Responds ok reason \<Rightarrow>
                    [TabUpdated t True, Injected t False,
                     WorkerMessage (Some t) ''videoWorkerResult'' ok reason])))"

fun play :: "url_api \<Rightarrow> bg \<Rightarrow> outcome list \<Rightarrow> bg" where
  "play api s [] = s"
| "play api s (out # outs) = play api (run api s (outcome_events s out)) outs"

text \<open>A job whose tab \<open>t\<close> is created and whose targets end as \<open>outs\<close> say.\<close>

definition job_play :: "url_api \<Rightarrow> payload \<Rightarrow> tab_id \<Rightarrow> outcome list \<Rightarrow> bg" where
  "job_play api p t outs = play api (job_trace api p [TabCreated (Some t)]) outs"

definition outcome_note :: "job \<Rightarrow> outcome \<Rightarrow> string" where
  "outcome_note j out =
     (case out of
        InjectFails \<Rightarrow> ''Inject failed; skipping.''
      | TimesOut \<Rightarrow> ''Timeout; skipping.''
      | Responds ok reason \<Rightarrow> worker_note j ok reason)"

definition outcome_calls :: "job \<Rightarrow> tab_id \<Rightarrow> outcome \<Rightarrow> chrome_call list" where
  "outcome_calls j t out =
     Scripting_executeScript t #
     (if out = InjectFails then []
      else [Tabs_sendMessage t (playlistIds j) (playlistNames j) (clearAll j)])"

definition url_or_null :: "string \<Rightarrow> string option" where
  "url_or_null u = (if u = [] then None else Some u)"

text \<open>
  The events that end the active target: the callback of a failed injection, a timer that
  fires, and a worker result from the tab of the job. \<open>ended s e\<close> is what such an event is
  to broadcast in the state \<open>s\<close>: one progress event with the next \<^verbatim>\<open>done\<close> value and the
  note of the event, and the completion after it when the queue is empty; any other event
  is to broadcast nothing.
\<close>

definition end_note :: "job \<Rightarrow> event \<Rightarrow> string" where
  "end_note j e =
     (case e of
        Injected t lastError \<Rightarrow> ''Inject failed; skipping.''
      | TimerFired tid \<Rightarrow> ''Timeout; skipping.''
      | WorkerMessage sender ty ok reason \<Rightarrow> worker_note j ok reason
      | _ \<Rightarrow> [])"

definition ends_target :: "bg \<Rightarrow> event \<Rightarrow> bool" where
  "ends_target s e =
     (case job s of
        None \<Rightarrow> False
      | Some j \<Rightarrow>
          (case e of
             Injected t lastError \<Rightarrow> lastError \<and> t \<in> set (injecting s)
           | TimerFired tid \<Rightarrow> tid \<in> fst ` set (timers s)
           | WorkerMessage sender ty ok reason \<Rightarrow>
               sender \<noteq> None \<and> sender = tabId j \<and> ty = ''videoWorkerResult'' \<and>
               0 < workerHandlers s
           | _ \<Rightarrow> False))"

definition ended :: "bg \<Rightarrow> event \<Rightarrow> message list" where
  "ended s e =
     (case job s of
        None \<Rightarrow> []
      | Some j \<Rightarrow>
          if ends_target s e
          then Playlist_apply_progress (Suc (done_count j)) (total j)
                 (case currentUrl j of None \<Rightarrow> None | Some u \<Rightarrow> url_or_null u) (end_note j e) #
               (if queue j = []
                then [Playlist_apply_complete (Suc (done_count j)) (total j) ''All videos processed.'']
                else [])
          else [])"

text \<open>
  The calls of a job from its first target on, for the targets \<open>us\<close> with the outcomes
  \<open>outs\<close>, after \<open>d\<close> targets are done.
\<close>

fun expected_calls :: "job \<Rightarrow> tab_id \<Rightarrow> nat \<Rightarrow> string list \<Rightarrow> outcome list \<Rightarrow> chrome_call list" where
  "expected_calls j t d (u # us) (out # outs) =
     outcome_calls j t out @
     Runtime_sendMessage
       (Playlist_apply_progress (Suc d) (total j) (url_or_null u) (outcome_note j out)) #
     (case us of
        [] \<Rightarrow>
          Runtime_sendMessage (Playlist_apply_complete (Suc d) (total j) ''All videos processed.'') #
          (if debugKeepTab j then [] else [Tabs_remove t])
      | u' # _ \<Rightarrow> Tabs_update (Some t) u' # expected_calls j t (Suc d) us outs)"
| "expected_calls j t d _ _ = []"

text \<open>The progress events of these targets alone.\<close>

fun results :: "job \<Rightarrow> nat \<Rightarrow> string list \<Rightarrow> outcome list \<Rightarrow> message list" where
  "results j d (u # us) (out # outs) =
     Playlist_apply_progress (Suc d) (total j) (url_or_null u) (outcome_note j out) #
     results j (Suc d) us outs"
| "results j d _ _ = []"

text \<open>The state in which target \<open>u\<close> is active in tab \<open>t\<close> and nothing is pending.\<close>

definition ready :: "bg \<Rightarrow> job \<Rightarrow> tab_id \<Rightarrow> string \<Rightarrow> bool" where
  "ready s j t u =
     (job s = Some j \<and> tabId j = Some t \<and> t \<noteq> 0 \<and> currentUrl j = Some u \<and>
      videoTimer j = None \<and> onWorkerMsg j \<and> onUpdatedAdded s \<and> workerHandlers s = 1 \<and>
      timers s = [] \<and> injecting s = [] \<and> creating s = 0 \<and> nextTimerId s \<noteq> 0)"

subsection \<open>Inputs of the examples\<close>

text \<open>
  A URL class that prints every string as it is, as the browser's does for an absolute URL
  in its canonical form that has neither query nor fragment.
\<close>

definition literal_urls :: url_api where
  "literal_urls = \<lparr>resolve = Some, unparam = Some\<rparr>"

definition no_payload :: payload where
  "no_payload = \<lparr>arg_playlistIds = None, arg_playlistNames = None, arg_videoUrls = None,
                 arg_debugKeepTab = None, arg_clearAll = None, arg_perVideoTimeoutMs = None\<rparr>"

text \<open>A Clear job of three videos with a timeout of one second (scenario 3 of the design).\<close>

definition clear3 :: payload where
  "clear3 = no_payload\<lparr>
     arg_videoUrls := Some [''https://rumble.com/v1'', ''https://rumble.com/v2'', ''https://rumble.com/v3''],
     arg_clearAll := Some True, arg_perVideoTimeoutMs := Some 1000\<rparr>"

text \<open>
  Scenario 3 in tab 7: the first and the third video are cleared, the worker of the second
  never answers and its timer (the second timer of the service worker) fires.
\<close>

definition scenario3 :: "event list" where
  "scenario3 =
     [TabCreated (Some 7),
      TabUpdated 7 True, Injected 7 False, WorkerMessage (Some 7) ''videoWorkerResult'' True None,
      TabUpdated 7 True, Injected 7 False, TimerFired 2,
      TabUpdated 7 True, Injected 7 False, WorkerMessage (Some 7) ''videoWorkerResult'' True None]"

text \<open>A Set job of two videos, by playlist name.\<close>

definition set2 :: payload where
  "set2 = no_payload\<lparr>
     arg_videoUrls := Some [''https://rumble.com/v1'', ''https://rumble.com/v2''],
     arg_playlistNames := Some [''my favorites'']\<rparr>"

text \<open>The same URL twice (scenario 1), and a Set job without playlists (scenario 2).\<close>

definition twice :: payload where
  "twice = no_payload\<lparr>
     arg_videoUrls := Some [''https://x/v1'', ''https://x/v1''],
     arg_playlistIds := Some [''pl_1'']\<rparr>"

definition set_nothing :: payload where
  "set_nothing = no_payload\<lparr>
     arg_videoUrls := Some [''https://x/v1''],
     arg_playlistIds := Some [], arg_playlistNames := Some []\<rparr>"

text \<open>
  A small part of the browser's URL class, enough for the inputs below: absolute
  \<^verbatim>\<open>http\<close> and \<^verbatim>\<open>https\<close> URLs in canonical spelling, which it prints as they are, and
  paths, which it resolves against \<^verbatim>\<open>https://rumble.com\<close>; query and fragment are what
  follows the first \<^verbatim>\<open>?\<close> or \<^verbatim>\<open>#\<close>.
\<close>

definition with_scheme :: "string \<Rightarrow> bool" where
  "with_scheme u = (take 8 u = ''https://'' \<or> take 7 u = ''http://'')"

definition simple_urls :: url_api where
  "simple_urls =
     \<lparr>resolve = (\<lambda>u. if with_scheme u then Some u
                      else if take 1 u = ''/'' then Some (''https://rumble.com'' @ u)
                      else Some (''https://rumble.com/'' @ u)),
      unparam = (\<lambda>u. if with_scheme u
                      then Some (takeWhile (\<lambda>c. c \<noteq> CHR ''?'' \<and> c \<noteq> CHR ''#'') u)
                      else None)\<rparr>"

text \<open>One video in three spellings (a path with a query, a trailing slash, a fragment) and a second video.\<close>

definition spellings :: payload where
  "spellings = no_payload\<lparr>
     arg_videoUrls := Some [''/v1?x=1'', ''https://rumble.com/v1/'', ''https://rumble.com/v1#t'',
                            ''https://rumble.com/v2''],
     arg_playlistIds := Some [''pl_1'']\<rparr>"

definition no_registries :: "bg \<Rightarrow> background" where
  "no_registries s =
     \<lparr>pendingScrapes = [], pendingRaidCommands = [], pendingPlaylistUpdates = [],
      pendingPlaylistScrapes = [], playlistScrapeResolvers = [], raidTargetResolvers = [],
      currentBulkTabId = None, pendingBulkJobs = [], bulkScriptInjected = False,
      lastAppliedStreamer = [], lastAppliedGamify = [], closed_tabs = [], direct = s\<rparr>"

text \<open>The playlist directory of property P6, and pages for the worker.\<close>

definition favorites :: "stored_playlist list" where
  "favorites = [\<lparr>title = Some ''My Favorites'', pl_id = Some ''pl_1'', playlist_id = None, slug = None\<rparr>]"

text \<open>
  An overlay that lists one playlist, not checked, which is not among the favorites; a page
  on which the overlay opens and the confirmation succeeds, and one on which the overlay
  does not close in time.
\<close>

definition other_overlay :: overlay where
  "other_overlay =
     \<lparr>container = True,
      items = [\<lparr>item_id = ''pl_9'', nameRaw = ''Other'', cb = \<lparr>checked = False, responsive = True\<rparr>\<rparr>],
      checkboxes = [\<lparr>checked = False, responsive = True\<rparr>]\<rparr>"

definition fine_page :: page where
  "fine_page = \<lparr>userPlaylists = favorites, opened = Inr other_overlay, closed = True, verified = Some True\<rparr>"

definition stuck_page :: page where
  "stuck_page = \<lparr>userPlaylists = favorites, opened = Inr other_overlay, closed = False, verified = Some True\<rparr>"

section \<open>Properties\<close>

subsection \<open>Deduplication and the guard of \<^verbatim>\<open>start\<close>\<close>

lemma set_uniq_into: "set (uniq_into seen xs) = set seen \<union> set xs"
  by (induction xs arbitrary: seen) auto

lemma distinct_uniq_into: "distinct seen \<Longrightarrow> distinct (uniq_into seen xs)"
  by (induction xs arbitrary: seen) auto

lemma set_uniq: "set (uniq xs) = set xs"
  by (simp add: uniq_def set_uniq_into)

lemma distinct_uniq: "distinct (uniq xs)"
  by (simp add: uniq_def distinct_uniq_into)

lemma length_uniq: "length (uniq xs) = card (set xs)"
  using distinct_card [OF distinct_uniq, of xs] by (simp add: set_uniq)

lemma strip_slashes_split:
  "\<exists>n. x = stripTrailingSlashes x @ replicate n (CHR ''/'')"
proof -
  let ?P = "\<lambda>c. c = CHR ''/''"
  have "rev x = takeWhile ?P (rev x) @ dropWhile ?P (rev x)"
    by simp
  then have "x = rev (dropWhile ?P (rev x)) @ rev (takeWhile ?P (rev x))"
    by (metis rev_append rev_rev_ident)
  moreover have "\<forall>c \<in> set (rev (takeWhile ?P (rev x))). c = CHR ''/''"
    by (auto dest: set_takeWhileD)
  then have "rev (takeWhile ?P (rev x)) = replicate (length (rev (takeWhile ?P (rev x)))) (CHR ''/'')"
    by (metis replicate_length_same)
  ultimately show ?thesis
    unfolding stripTrailingSlashes_def by metis
qed

lemma strip_slashes_last:
  "stripTrailingSlashes x = [] \<or> last (stripTrailingSlashes x) \<noteq> CHR ''/''"
proof (cases "dropWhile (\<lambda>c. c = CHR ''/'') (rev x) = []")
  case True
  then show ?thesis by (simp add: stripTrailingSlashes_def)
next
  case False
  with hd_dropWhile [OF False] show ?thesis
    by (simp add: stripTrailingSlashes_def last_rev)
qed

lemma normal_form: "stripParams api (toAbs api u) = stripTrailingSlashes (canonical api u)"
  by (simp add: stripParams_def toAbs_def canonical_def Let_def split: option.splits)

lemma job_cleanup [simp]: "job (cleanup s) = None"
  by (simp add: cleanup_def Let_def split: option.splits)

lemma cleanup_idle: "job s = None \<Longrightarrow> cleanup s = s"
  by (simp add: cleanup_def)

lemma start_rejected:
  "rejected api p \<Longrightarrow>
   start api p s = sendMessage (Playlist_apply_error ''Missing videos or playlists.'') (cleanup s)"
  by (auto simp: rejected_def start_def Let_def split: list.splits)

lemma start_accepted:
  "\<not> rejected api p \<Longrightarrow>
   start api p s =
     (cleanup s)\<lparr>job := Some (new_job api p),
                 calls := calls (cleanup s) @
                   [Runtime_sendMessage
                      (Playlist_apply_started (length (unique_targets api (orElse (arg_videoUrls p) [])))
                         (if orElse (arg_clearAll p) False then ''clear'' else ''set'')),
                    Tabs_create (hd (unique_targets api (orElse (arg_videoUrls p) [])))],
                 creating := Suc (creating (cleanup s))\<rparr>"
  by (auto simp: rejected_def start_def Let_def new_job_def sendMessage_def call_def split: list.splits)

subsection \<open>The broadcasts of the callbacks\<close>

lemma messages_of_append: "messages_of (cs @ ds) = messages_of cs @ messages_of ds"
  by (induction cs rule: messages_of.induct) auto

lemma dones_of_append: "dones_of (ms @ ns) = dones_of ms @ dones_of ns"
  by (induction ms rule: dones_of.induct) auto

lemma completes_of_append: "completes_of (ms @ ns) = completes_of ms @ completes_of ns"
  by (induction ms rule: completes_of.induct) auto

lemma tab_calls_append: "tab_calls (cs @ ds) = tab_calls cs @ tab_calls ds"
  by (induction cs rule: tab_calls.induct) auto

lemma calls_cleanup:
  "calls (cleanup s) =
     calls s @ (case job s of None \<Rightarrow> [] | Some j \<Rightarrow>
                 (case tabId j of None \<Rightarrow> [] | Some t \<Rightarrow> if \<not> debugKeepTab j \<and> t \<noteq> 0 then [Tabs_remove t] else []))"
  by (simp add: cleanup_def Let_def call_def clearVideoTimer_def clearTimeout_def split: option.splits)

lemma messages_cleanup [simp]: "messages_of (calls (cleanup s)) = messages_of (calls s)"
  by (simp add: calls_cleanup messages_of_append split: option.splits)

lemma job_finish_video:
  "job (finish_video note j s) =
     (case queue j of
        [] \<Rightarrow> None
      | u # rest \<Rightarrow>
          Some (j\<lparr>done_count := Suc (done_count j),
                  videoTimer := (if truthy (videoTimer j) then None else videoTimer j),
                  currentUrl := Some u, queue := rest\<rparr>))"
  by (simp add: finish_video_def next_video_def sendProgress_def sendMessage_def call_def
      bump_done_def clearVideoTimer_def clearTimeout_def Let_def split: list.splits option.splits)

lemma messages_finish_video:
  "messages_of (calls (finish_video note j s)) =
     messages_of (calls s) @
     Playlist_apply_progress (Suc (done_count j)) (total j)
       (case currentUrl j of None \<Rightarrow> None | Some u \<Rightarrow> if u = [] then None else Some u) note #
     (case queue j of
        [] \<Rightarrow> [Playlist_apply_complete (Suc (done_count j)) (total j) ''All videos processed.'']
      | _ \<Rightarrow> [])"
  by (simp add: finish_video_def next_video_def sendProgress_def sendMessage_def call_def
      bump_done_def clearVideoTimer_def clearTimeout_def Let_def messages_of_append
      split: list.splits option.splits)

lemma others_finish_video:
  "queue j \<noteq> [] \<Longrightarrow>
   creating (finish_video note j s) = creating s \<and>
   workerHandlers (finish_video note j s) = workerHandlers s"
  by (simp add: finish_video_def next_video_def sendProgress_def sendMessage_def call_def
      bump_done_def clearVideoTimer_def clearTimeout_def Let_def
      split: list.splits option.splits)

subsection \<open>The invariant of one job\<close>

lemma count_up_0 [simp]: "count_up 0 = []"
  by (simp add: count_up_def)

lemma count_up_Suc [simp]: "count_up (Suc k) = count_up k @ [Suc k]"
  by (simp add: count_up_def)

lemma length_count_up [simp]: "length (count_up k) = k"
  by (simp add: count_up_def)

lemma inv_finish:
  assumes inv: "job_inv N s" and js: "job s = Some j" and tab: "tabId j = Some t"
    and same: "messages_of (calls s') = messages_of (calls s)" "creating s' = creating s"
       "workerHandlers s' = workerHandlers s"
       "total j' = total j" "done_count j' = done_count j" "queue j' = queue j" "tabId j' = tabId j"
  shows "job_inv N (finish_video note j' s')"
proof -
  define k where "k = length (dones_of (messages_of (calls s)))"
  from inv js tab have facts:
    "dones_of (messages_of (calls s)) = count_up k" "completes_of (messages_of (calls s)) = []"
    "total j = N" "done_count j = k" "N = Suc (k + length (queue j))"
    "creating s = 0" "workerHandlers s = 1"
    by (auto simp: job_inv_def Let_def k_def)
  show ?thesis
  proof (cases "queue j")
    case Nil
    with facts same show ?thesis
      by (simp add: job_inv_def Let_def job_finish_video messages_finish_video dones_of_append
          completes_of_append)
  next
    case (Cons u rest)
    with facts same tab show ?thesis
      by (simp add: job_inv_def Let_def job_finish_video messages_finish_video dones_of_append
          completes_of_append others_finish_video)
  qed
qed

lemma inv_stable_None:
  assumes "job s = None" and "\<And>p. e \<noteq> Start p"
  shows "job (step api s e) = None \<and> calls (step api s e) = calls s"
proof (cases e)
  case (WorkerMessage sender ty ok reason)
  have "\<And>n. job (((handler sender ty ok reason) ^^ n) s) = None \<and> calls (((handler sender ty ok reason) ^^ n) s) = calls s"
  proof -
    fix n show "job (((handler sender ty ok reason) ^^ n) s) = None \<and> calls (((handler sender ty ok reason) ^^ n) s) = calls s"
      using assms(1) by (induction n) (auto simp: handler_def)
  qed
  with WorkerMessage show ?thesis by simp
qed (use assms in \<open>auto simp: tabCreated_def onUpdated_def injected_def timeoutFired_def clearTimeout_def\<close>)

lemma inv_None_stable:
  assumes "job_inv N s" "job s = None" "job s' = None" "calls s' = calls s"
  shows "job_inv N s'"
  using assms by (simp add: job_inv_def Let_def)

lemma inv_same:
  assumes "job_inv N s" "job s = Some j" "tabId j = Some t"
    and "job s' = Some j'" "messages_of (calls s') = messages_of (calls s)"
       "creating s' = creating s"
       "workerHandlers s' = workerHandlers s"
       "total j' = total j" "done_count j' = done_count j" "queue j' = queue j" "tabId j' = tabId j"
  shows "job_inv N s'"
  using assms by (simp add: job_inv_def Let_def)

lemma inv_tabCreated:
  assumes inv: "job_inv N s" and js: "job s = Some j" and tab: "tabId j = None"
  shows "job_inv N (tabCreated tab' (s\<lparr>creating := creating s - 1\<rparr>))"
proof (cases "truthy tab'")
  case False
  with inv js tab show ?thesis
    by (simp add: job_inv_def Let_def tabCreated_def sendMessage_def call_def calls_cleanup
        messages_of_append dones_of_append completes_of_append)
next
  case True
  from inv js tab have "queue j \<noteq> []"
    by (auto simp: job_inv_def Let_def)
  then obtain u rest where q: "queue j = u # rest"
    by (cases "queue j") auto
  from True obtain t where t: "tab' = Some t"
    by (cases tab') auto
  from inv js tab q t True show ?thesis
    by (simp add: job_inv_def Let_def tabCreated_def)
qed

lemma inv_handler:
  assumes inv: "job_inv N s" and js: "job s = Some j" and tab: "tabId j = Some t"
  shows "job_inv N (handler sender ty ok reason s)"
proof (cases "sender = None \<or> sender \<noteq> tabId j \<or> ty \<noteq> ''videoWorkerResult''")
  case True
  with js have "handler sender ty ok reason s = s"
    by (auto simp: handler_def)
  with inv show ?thesis by simp
next
  case False
  with js have h: "handler sender ty ok reason s =
      finish_video
        (worker_note (if truthy (videoTimer j) then j\<lparr>videoTimer := None\<rparr> else j) ok reason)
        (if truthy (videoTimer j) then j\<lparr>videoTimer := None\<rparr> else j)
        (if truthy (videoTimer j) then clearVideoTimer j s else s)"
    by (auto simp: handler_def Let_def)
  show ?thesis
    unfolding h
    by (rule inv_finish [OF inv js tab])
       (simp_all add: clearVideoTimer_def clearTimeout_def split: option.splits)
qed

lemma inv_step:
  assumes inv: "job_inv N s" and ns: "\<And>p. e \<noteq> Start p"
  shows "job_inv N (step api s e)"
proof (cases "job s")
  case None
  with inv_stable_None [OF None ns, of api] inv show ?thesis
    by (auto intro: inv_None_stable)
next
  case (Some j)
  show ?thesis
  proof (cases "tabId j")
    case None
    with inv Some have idle: "creating s = 1" "timers s = []" "injecting s = []"
        "workerHandlers s = 0" "\<not> onUpdatedAdded s"
      by (auto simp: job_inv_def Let_def)
    show ?thesis
    proof (cases e)
      case (Start p)
      with ns [of p] show ?thesis by simp
    next
      case (TabCreated tab')
      with idle inv_tabCreated [OF inv Some None] show ?thesis by simp
    qed (use idle inv in \<open>simp_all add: onUpdated_def\<close>)
  next
    case (Some t)
    note tab = this
    from inv \<open>job s = Some j\<close> tab have run: "creating s = 0" "workerHandlers s = 1"
      by (auto simp: job_inv_def Let_def)
    show ?thesis
    proof (cases e)
      case (Start p)
      with ns [of p] show ?thesis by simp
    next
      case (TabCreated tab')
      with run inv show ?thesis by simp
    next
      case (TabUpdated t' c)
      have "job_inv N (onUpdated t' c s)"
        by (rule inv_same [OF inv \<open>job s = Some j\<close> tab, where j' = j])
           (auto simp: onUpdated_def \<open>job s = Some j\<close> call_def messages_of_append)
      with TabUpdated show ?thesis by simp
    next
      case (Injected t' err)
      show ?thesis
      proof (cases "t' \<in> set (injecting s)")
        case False
        with Injected inv show ?thesis by simp
      next
        case True
        show ?thesis
        proof (cases err)
          case True
          have "job_inv N (finish_video ''Inject failed; skipping.'' j (s\<lparr>injecting := remove1 t' (injecting s)\<rparr>))"
            by (rule inv_finish [OF inv \<open>job s = Some j\<close> tab]) simp_all
          with Injected \<open>t' \<in> set (injecting s)\<close> True \<open>job s = Some j\<close> show ?thesis
            by (simp add: injected_def)
        next
          case False
          have "job_inv N (injected t' False (s\<lparr>injecting := remove1 t' (injecting s)\<rparr>))"
            by (rule inv_same [OF inv \<open>job s = Some j\<close> tab,
                  where j' = "j\<lparr>videoTimer := Some (nextTimerId s)\<rparr>"])
               (simp_all add: injected_def setTimeout_def \<open>job s = Some j\<close> call_def
                  messages_of_append)
          with Injected \<open>t' \<in> set (injecting s)\<close> False show ?thesis by simp
        qed
      qed
    next
      case (TimerFired tid)
      show ?thesis
      proof (cases "tid \<in> fst ` set (timers s)")
        case False
        with TimerFired inv show ?thesis by simp
      next
        case True
        have "job_inv N (finish_video ''Timeout; skipping.'' j (clearTimeout tid s))"
          by (rule inv_finish [OF inv \<open>job s = Some j\<close> tab]) (simp_all add: clearTimeout_def)
        with TimerFired True \<open>job s = Some j\<close> show ?thesis
          by (simp add: timeoutFired_def clearTimeout_def)
      qed
    next
      case (WorkerMessage sender ty ok reason)
      with run inv_handler [OF inv \<open>job s = Some j\<close> tab] show ?thesis by simp
    qed
  qed
qed

lemma inv_run:
  assumes "job_inv N s" and "\<forall>e \<in> set evs. \<forall>p. e \<noteq> Start p"
  shows "job_inv N (run api s evs)"
  using assms unfolding run_def
  by (induction evs arbitrary: s) (auto intro: inv_step)

subsection \<open>A job played to its end\<close>

lemma play_one_last:
  assumes "ready s j t u" "queue j = []"
  shows "run api s (outcome_events s out) =
           s\<lparr>job := None, onUpdatedAdded := False, workerHandlers := 0,
             nextTimerId := (if out = InjectFails then nextTimerId s else Suc (nextTimerId s)),
             calls := calls s @ expected_calls j t (done_count j) [u] [out]\<rparr>"
  using assms
  by (cases out)
     (simp_all add: ready_def outcome_events_def run_def onUpdated_def injected_def
       timeoutFired_def handler_def finish_video_def next_video_def sendProgress_def
       sendMessage_def call_def bump_done_def clearVideoTimer_def clearTimeout_def
       setTimeout_def cleanup_def Let_def outcome_calls_def outcome_note_def url_or_null_def
       worker_note_def)

lemma play_one_more:
  assumes "ready s j t u" "queue j = u' # rest"
  shows "run api s (outcome_events s out) =
           s\<lparr>job := Some (j\<lparr>done_count := Suc (done_count j), currentUrl := Some u', queue := rest\<rparr>),
             nextTimerId := (if out = InjectFails then nextTimerId s else Suc (nextTimerId s)),
             calls := calls s @ outcome_calls j t out @
                [Runtime_sendMessage
                   (Playlist_apply_progress (Suc (done_count j)) (total j) (url_or_null u)
                      (outcome_note j out)),
                 Tabs_update (Some t) u']\<rparr>"
  using assms
  by (cases out)
     (simp_all add: ready_def outcome_events_def run_def onUpdated_def injected_def
       timeoutFired_def handler_def finish_video_def next_video_def sendProgress_def
       sendMessage_def call_def bump_done_def clearVideoTimer_def clearTimeout_def
       setTimeout_def Let_def outcome_calls_def outcome_note_def url_or_null_def
       worker_note_def)

lemma expected_calls_static:
  assumes "playlistIds j' = playlistIds j" "playlistNames j' = playlistNames j"
    "clearAll j' = clearAll j" "total j' = total j" "debugKeepTab j' = debugKeepTab j"
  shows "expected_calls j' t d us outs = expected_calls j t d us outs"
  using assms
  by (induction j t d us outs rule: expected_calls.induct)
     (auto simp: outcome_calls_def outcome_note_def worker_note_def split: list.splits outcome.splits)

lemma play_finished: "job s = None \<Longrightarrow> play api s outs = s"
  by (induction outs) (simp_all add: outcome_events_def run_def)

lemma play_calls:
  assumes "ready s j t u" "length outs = Suc (length (queue j))"
  shows "job (play api s outs) = None \<and>
         calls (play api s outs) = calls s @ expected_calls j t (done_count j) (u # queue j) outs"
  using assms
proof (induction outs arbitrary: s j u)
  case Nil
  then show ?case by simp
next
  case (Cons out outs)
  show ?case
  proof (cases "queue j")
    case Nil
    with Cons.prems have "outs = []" by simp
    with Nil play_one_last [OF Cons.prems(1) Nil, of api out] show ?thesis
      by simp
  next
    case (Cons u' rest)
    let ?j = "j\<lparr>done_count := Suc (done_count j), currentUrl := Some u', queue := rest\<rparr>"
    let ?s = "run api s (outcome_events s out)"
    note one = play_one_more [OF Cons.prems(1) Cons, of api out]
    from Cons.prems(1) have r: "ready ?s ?j t u'"
      unfolding one by (auto simp: ready_def)
    from Cons.prems(2) Cons have len: "length outs = Suc (length (queue ?j))"
      by simp
    have st: "expected_calls ?j t (Suc (done_count j)) (u' # rest) outs =
              expected_calls j t (Suc (done_count j)) (u' # rest) outs"
      by (rule expected_calls_static) simp_all
    from Cons.IH [OF r len] st Cons show ?thesis
      by (simp add: one)
  qed
qed

subsection \<open>One job from the loaded service worker\<close>

lemma inv_start:
  assumes "\<not> rejected api p"
  shows "job_inv (length (unique_targets api (orElse (arg_videoUrls p) []))) (start api p initial)"
proof -
  from assms have "unique_targets api (orElse (arg_videoUrls p) []) \<noteq> []"
    by (auto simp: rejected_def)
  with assms show ?thesis
    by (simp add: start_accepted cleanup_idle initial_def job_inv_def Let_def new_job_def)
qed

lemma inv_job_trace:
  assumes "\<not> rejected api p" and "\<forall>e \<in> set evs. \<forall>q. e \<noteq> Start q"
  shows "job_inv (length (unique_targets api (orElse (arg_videoUrls p) []))) (job_trace api p evs)"
proof -
  have "job_trace api p evs = run api (start api p initial) evs"
    by (simp add: job_trace_def run_def)
  with inv_run [OF inv_start [OF assms(1)] assms(2)] show ?thesis by simp
qed

lemma ready_after_create:
  assumes "\<not> rejected api p" "t \<noteq> 0" "unique_targets api (orElse (arg_videoUrls p) []) = u # rest"
  shows "ready (job_trace api p [TabCreated (Some t)])
           ((new_job api p)\<lparr>tabId := Some t, onWorkerMsg := True, currentUrl := Some u, queue := rest\<rparr>) t u"
    and "calls (job_trace api p [TabCreated (Some t)]) =
           [Runtime_sendMessage
              (Playlist_apply_started (Suc (length rest))
                 (if orElse (arg_clearAll p) False then ''clear'' else ''set'')),
            Tabs_create u]"
  using assms
  by (simp_all add: job_trace_def run_def start_accepted cleanup_idle initial_def tabCreated_def
      ready_def new_job_def Let_def)

lemma job_play_calls:
  assumes acc: "\<not> rejected api p" and t: "t \<noteq> 0"
    and len: "length outs = length (unique_targets api (orElse (arg_videoUrls p) []))"
  shows "job (job_play api p t outs) = None"
    and "calls (job_play api p t outs) =
           Runtime_sendMessage
             (Playlist_apply_started (length outs)
                (if orElse (arg_clearAll p) False then ''clear'' else ''set'')) #
           Tabs_create (hd (unique_targets api (orElse (arg_videoUrls p) []))) #
           expected_calls (new_job api p) t 0 (unique_targets api (orElse (arg_videoUrls p) [])) outs"
proof -
  from acc obtain u rest where us: "unique_targets api (orElse (arg_videoUrls p) []) = u # rest"
    by (cases "unique_targets api (orElse (arg_videoUrls p) [])") (auto simp: rejected_def)
  let ?j = "(new_job api p)\<lparr>tabId := Some t, onWorkerMsg := True, currentUrl := Some u, queue := rest\<rparr>"
  note r = ready_after_create [OF acc t us]
  from len us have l: "length outs = Suc (length (queue ?j))" by simp
  have st: "expected_calls ?j t 0 (u # rest) outs = expected_calls (new_job api p) t 0 (u # rest) outs"
    by (rule expected_calls_static) simp_all
  have d: "done_count ?j = 0" by (simp add: new_job_def)
  from play_calls [OF r(1) l, of api] show "job (job_play api p t outs) = None"
    by (simp add: job_play_def)
  from play_calls [OF r(1) l, of api] r(2) st d us len
  show "calls (job_play api p t outs) =
           Runtime_sendMessage
             (Playlist_apply_started (length outs)
                (if orElse (arg_clearAll p) False then ''clear'' else ''set'')) #
           Tabs_create (hd (unique_targets api (orElse (arg_videoUrls p) []))) #
           expected_calls (new_job api p) t 0 (unique_targets api (orElse (arg_videoUrls p) [])) outs"
    by (simp add: job_play_def)
qed

lemma messages_expected_calls:
  assumes "length outs = length us" "us \<noteq> []"
  shows "messages_of (expected_calls j t d us outs) =
           results j d us outs @
           [Playlist_apply_complete (d + length us) (total j) ''All videos processed.'']"
  using assms
proof (induction j t d us outs rule: expected_calls.induct)
  case (1 j t d u us out outs)
  show ?case
  proof (cases us)
    case Nil
    with 1 show ?thesis
      by (simp add: messages_of_append outcome_calls_def)
  next
    case (Cons u' rest)
    with 1 show ?thesis
      by (simp add: messages_of_append outcome_calls_def)
  qed
qed simp_all

lemma dones_results:
  "length outs = length us \<Longrightarrow> dones_of (results j d us outs) = map (\<lambda>i. d + i) (count_up (length us))"
proof (induction j d us outs rule: results.induct)
  case (1 j d u us out outs)
  then have "dones_of (results j (Suc d) us outs) = map (\<lambda>i. Suc d + i) (count_up (length us))"
    by simp
  moreover have "count_up (Suc (length us)) = 1 # map Suc (count_up (length us))"
    unfolding count_up_def by (simp add: upt_conv_Cons map_Suc_upt del: upt_Suc)
  ultimately show ?case by simp
qed simp_all

lemma length_results:
  "length outs = length us \<Longrightarrow> length (results j d us outs) = length us"
  by (induction j d us outs rule: results.induct) simp_all

lemma tab_calls_expected:
  assumes "length outs = length us" "us \<noteq> []"
  shows "tab_calls (expected_calls j t d us outs) =
           map (Tabs_update (Some t)) (tl us) @ (if debugKeepTab j then [] else [Tabs_remove t])"
  using assms
proof (induction j t d us outs rule: expected_calls.induct)
  case (1 j t d u us out outs)
  show ?case
  proof (cases us)
    case Nil
    with 1 show ?thesis
      by (simp add: tab_calls_append outcome_calls_def)
  next
    case (Cons u' rest)
    with 1 show ?thesis
      by (simp add: tab_calls_append outcome_calls_def)
  qed
qed simp_all

subsection \<open>What one event broadcasts\<close>

lemma finish_video_running:
  "messages_of (calls (finish_video note j s)) =
     messages_of (calls s) @
     Playlist_apply_progress (Suc (done_count j)) (total j)
       (case currentUrl j of None \<Rightarrow> None | Some u \<Rightarrow> url_or_null u) note #
     (if queue j = []
      then [Playlist_apply_complete (Suc (done_count j)) (total j) ''All videos processed.'']
      else [])"
  by (simp add: messages_finish_video url_or_null_def split: list.splits option.splits)

lemma finish_step:
  assumes "queue j' = queue j" "tabId j' = Some t" "done_count j' = done_count j"
    "total j' = total j" "currentUrl j' = currentUrl j"
    "messages_of (calls s') = messages_of (calls s)"
  shows "messages_of (calls (finish_video note j' s')) =
           messages_of (calls s) @
           Playlist_apply_progress (Suc (done_count j)) (total j)
             (case currentUrl j of None \<Rightarrow> None | Some u \<Rightarrow> url_or_null u) note #
           (if queue j = []
            then [Playlist_apply_complete (Suc (done_count j)) (total j) ''All videos processed.'']
            else [])"
    and "case job (finish_video note j' s') of
           None \<Rightarrow> queue j = []
         | Some j'' \<Rightarrow> tabId j'' = Some t"
  using assms
  by (simp_all add: finish_video_running job_finish_video split: list.splits)

lemma step_running:
  assumes js: "job s = Some j" and tab: "tabId j = Some t"
    and cr: "creating s = 0" and wh: "workerHandlers s = 1" and ns: "\<And>q. e \<noteq> Start q"
  shows "broadcasts (step api s e) = broadcasts s @ ended s e \<and>
         (case job (step api s e) of
            None \<Rightarrow> ends_target s e \<and> queue j = []
          | Some j' \<Rightarrow> tabId j' = Some t)"
proof (cases "ends_target s e")
  case False
  show ?thesis
  proof (cases e)
    case (Start p)
    with ns [of p] show ?thesis by simp
  next
    case (TabCreated tab')
    with js tab cr show ?thesis
      by (simp add: ended_def ends_target_def broadcasts_def)
  next
    case (TabUpdated t' c)
    with js tab show ?thesis
      by (simp add: ended_def ends_target_def broadcasts_def onUpdated_def call_def
          messages_of_append)
  next
    case (Injected t' err)
    with False js tab show ?thesis
      by (auto simp: ended_def ends_target_def broadcasts_def injected_def setTimeout_def
          call_def messages_of_append)
  next
    case (TimerFired tid)
    with False js tab show ?thesis
      by (simp add: ended_def ends_target_def broadcasts_def)
  next
    case (WorkerMessage sender ty ok reason)
    with False js wh have "sender = None \<or> sender \<noteq> tabId j \<or> ty \<noteq> ''videoWorkerResult''"
      by (auto simp: ends_target_def)
    with js have "handler sender ty ok reason s = s"
      by (auto simp: handler_def)
    with WorkerMessage False js tab wh show ?thesis
      by (simp add: ended_def broadcasts_def)
  qed
next
  case True
  let ?progress = "\<lambda>note. Playlist_apply_progress (Suc (done_count j)) (total j)
             (case currentUrl j of None \<Rightarrow> None | Some u \<Rightarrow> url_or_null u) note #
           (if queue j = []
            then [Playlist_apply_complete (Suc (done_count j)) (total j) ''All videos processed.'']
            else [])"
  have "\<exists>j' s'. step api s e = finish_video (end_note j e) j' s' \<and>
          queue j' = queue j \<and> tabId j' = Some t \<and> done_count j' = done_count j \<and>
          total j' = total j \<and> currentUrl j' = currentUrl j \<and>
          messages_of (calls s') = messages_of (calls s)"
  proof (cases e)
    case (Injected t' err)
    with True js have "step api s e =
        finish_video (end_note j e) j (s\<lparr>injecting := remove1 t' (injecting s)\<rparr>)"
      by (simp add: ends_target_def injected_def end_note_def)
    with tab show ?thesis
      by (intro exI [of _ j] exI [of _ "s\<lparr>injecting := remove1 t' (injecting s)\<rparr>"]) simp
  next
    case (TimerFired tid)
    with True js have "step api s e = finish_video (end_note j e) j (clearTimeout tid s)"
      by (simp add: ends_target_def timeoutFired_def clearTimeout_def end_note_def)
    with tab show ?thesis
      by (intro exI [of _ j] exI [of _ "clearTimeout tid s"]) (simp add: clearTimeout_def)
  next
    case (WorkerMessage sender ty ok reason)
    let ?j1 = "if truthy (videoTimer j) then j\<lparr>videoTimer := None\<rparr> else j"
    let ?s1 = "if truthy (videoTimer j) then clearVideoTimer j s else s"
    from WorkerMessage True js tab
    have m: "sender \<noteq> None" "sender = tabId j" "ty = ''videoWorkerResult''"
      by (simp_all add: ends_target_def)
    with js have "handler sender ty ok reason s = finish_video (worker_note ?j1 ok reason) ?j1 ?s1"
      by (auto simp: handler_def Let_def)
    moreover have "worker_note ?j1 ok reason = end_note j e"
      using WorkerMessage by (simp add: end_note_def worker_note_def)
    ultimately have "step api s e = finish_video (end_note j e) ?j1 ?s1"
      using WorkerMessage wh by simp
    moreover have "messages_of (calls ?s1) = messages_of (calls s)"
      by (simp add: clearVideoTimer_def clearTimeout_def split: option.splits)
    ultimately show ?thesis
      using tab by (intro exI [of _ ?j1] exI [of _ ?s1]) simp
  qed (use True js in \<open>simp_all add: ends_target_def\<close>)
  then obtain j' s' where st: "step api s e = finish_video (end_note j e) j' s'"
    and same: "queue j' = queue j" "tabId j' = Some t" "done_count j' = done_count j"
      "total j' = total j" "currentUrl j' = currentUrl j"
      "messages_of (calls s') = messages_of (calls s)"
    by blast
  note f = finish_step [OF same, of "end_note j e"]
  from True js have e: "ended s e = ?progress (end_note j e)"
    by (simp add: ended_def)
  from f(1) e have "broadcasts (step api s e) = broadcasts s @ ended s e"
    by (simp add: broadcasts_def st)
  moreover from f(2) True
  have "case job (step api s e) of
          None \<Rightarrow> ends_target s e \<and> queue j = []
        | Some j' \<Rightarrow> tabId j' = Some t"
    by (simp add: st split: option.splits)
  ultimately show ?thesis by blast
qed

lemma created_step:
  assumes inv: "job_inv N s"
    and tb: "case job s of None \<Rightarrow> length (dones_of (messages_of (calls s))) = N
                         | Some j \<Rightarrow> tabId j = Some t"
    and ns: "\<And>q. e \<noteq> Start q"
  shows "job_inv N (step api s e) \<and>
         (case job (step api s e) of
            None \<Rightarrow> length (dones_of (messages_of (calls (step api s e)))) = N
          | Some j \<Rightarrow> tabId j = Some t)"
proof (cases "job s")
  case None
  with inv_stable_None [OF None ns, of api] inv_step [OF inv ns, of api] tb show ?thesis
    by simp
next
  case (Some j)
  with tb have tab: "tabId j = Some t" by simp
  from inv Some tab have facts: "creating s = 0" "workerHandlers s = 1"
    "done_count j = length (dones_of (messages_of (calls s)))"
    "Suc (length (dones_of (messages_of (calls s))) + length (queue j)) = N"
    by (auto simp: job_inv_def Let_def)
  note st = step_running [OF Some tab facts(1,2) ns, of api]
  show ?thesis
  proof (cases "job (step api s e)")
    case None
    with st have "ends_target s e" "queue j = []"
      by simp_all
    with Some have "ended s e =
        [Playlist_apply_progress (Suc (done_count j)) (total j)
           (case currentUrl j of None \<Rightarrow> None | Some u \<Rightarrow> url_or_null u) (end_note j e),
         Playlist_apply_complete (Suc (done_count j)) (total j) ''All videos processed.'']"
      by (simp add: ended_def)
    with st have "dones_of (messages_of (calls (step api s e))) =
                  dones_of (messages_of (calls s)) @ [Suc (done_count j)]"
      by (simp add: broadcasts_def dones_of_append)
    with facts \<open>queue j = []\<close> have "length (dones_of (messages_of (calls (step api s e)))) = N"
      by simp
    with None inv_step [OF inv ns, of api] show ?thesis by simp
  next
    case (Some j')
    with st inv_step [OF inv ns, of api] show ?thesis by simp
  qed
qed

lemma created_run:
  assumes "job_inv N s"
    and "case job s of None \<Rightarrow> length (dones_of (messages_of (calls s))) = N
                      | Some j \<Rightarrow> tabId j = Some t"
    and "\<forall>e \<in> set evs. \<forall>q. e \<noteq> Start q"
  shows "job_inv N (run api s evs) \<and>
         (case job (run api s evs) of
            None \<Rightarrow> length (dones_of (messages_of (calls (run api s evs)))) = N
          | Some j \<Rightarrow> tabId j = Some t)"
  using assms
proof (induction evs arbitrary: s)
  case Nil
  have r: "run api s [] = s" by (simp add: run_def)
  show ?case unfolding r using Nil.prems(1,2) by simp
next
  case (Cons e evs)
  from Cons.prems(3) have ns: "\<And>q. e \<noteq> Start q" and rest: "\<forall>e \<in> set evs. \<forall>q. e \<noteq> Start q"
    by simp_all
  from created_step [OF Cons.prems(1,2) ns, of api]
  have "job_inv N (step api s e)"
    and "case job (step api s e) of
            None \<Rightarrow> length (dones_of (messages_of (calls (step api s e)))) = N
          | Some j \<Rightarrow> tabId j = Some t"
    by simp_all
  note ih = Cons.IH [OF this rest]
  have r: "run api s (e # evs) = run api (step api s e) evs"
    by (simp add: run_def)
  show ?case unfolding r by (rule ih)
qed

subsection \<open>The examples, evaluated\<close>

lemmas eval_defs = job_trace_def run_def start_def tabCreated_def onUpdated_def injected_def
  timeoutFired_def handler_def finish_video_def next_video_def sendProgress_def sendMessage_def
  call_def bump_done_def clearVideoTimer_def clearTimeout_def setTimeout_def cleanup_def Let_def
  worker_note_def initial_def orElse_def unique_targets_def uniq_def literal_urls_def toAbs_def
  stripParams_def stripTrailingSlashes_def no_payload_def broadcasts_def

lemma scenario3_calls:
  "broadcasts (job_trace literal_urls clear3 scenario3) =
     [Playlist_apply_started 3 ''clear'',
      Playlist_apply_progress 1 3 (Some ''https://rumble.com/v1'') ''Cleared'',
      Playlist_apply_progress 2 3 (Some ''https://rumble.com/v2'') ''Timeout; skipping.'',
      Playlist_apply_progress 3 3 (Some ''https://rumble.com/v3'') ''Cleared'',
      Playlist_apply_complete 3 3 ''All videos processed.'']"
  by (simp add: eval_defs clear3_def scenario3_def)

lemma clear3_targets:
  "targets literal_urls clear3 = [''https://rumble.com/v1'', ''https://rumble.com/v2'', ''https://rumble.com/v3'']"
  by (simp add: targets_def clear3_def no_payload_def orElse_def unique_targets_def uniq_def
      literal_urls_def toAbs_def stripParams_def stripTrailingSlashes_def)

lemma clear3_accepted: "\<not> rejected literal_urls clear3"
  using clear3_targets
  by (simp add: rejected_def targets_def clear3_def no_payload_def orElse_def)

lemma scenario3_no_start: "\<forall>e \<in> set scenario3. \<forall>q. e \<noteq> Start q"
  by (simp add: scenario3_def)

lemma set2_targets:
  "targets literal_urls set2 = [''https://rumble.com/v1'', ''https://rumble.com/v2'']"
  by (simp add: targets_def set2_def no_payload_def orElse_def unique_targets_def uniq_def
      literal_urls_def toAbs_def stripParams_def stripTrailingSlashes_def)

lemma set2_accepted: "\<not> rejected literal_urls set2"
  using set2_targets
  by (simp add: rejected_def targets_def set2_def no_payload_def orElse_def)

lemma results_timeouts:
  "results j d us (replicate (length us) TimesOut) =
     map (\<lambda>(i, u). Playlist_apply_progress (Suc i) (total j) (url_or_null u) ''Timeout; skipping.'')
       (enumerate d us)"
  by (induction us arbitrary: d) (simp_all add: outcome_note_def)


subsection \<open>Strings, name resolution and the overlay\<close>

lemma dropWhile_fix: "xs = [] \<or> \<not> P (hd xs) \<Longrightarrow> dropWhile P xs = xs"
  by (cases xs) auto

lemma hd_dropWhile_not: "dropWhile P xs \<noteq> [] \<Longrightarrow> \<not> P (hd (dropWhile P xs))"
  by (rule hd_dropWhile)

lemma trim_idem: "trim (trim s) = trim s"
proof -
  define t where "t = dropWhile is_space s"
  define r where "r = dropWhile is_space (rev t)"
  have tr: "trim s = rev r"
    by (simp add: trim_def t_def r_def)
  have r_ok: "r = [] \<or> \<not> is_space (hd r)"
    unfolding r_def using hd_dropWhile [of is_space "rev t"] by blast
  have t_ok: "t = [] \<or> \<not> is_space (hd t)"
    unfolding t_def using hd_dropWhile [of is_space s] by blast
  obtain pre where pre: "rev t = pre @ r"
    unfolding r_def by (metis takeWhile_dropWhile_id)
  then have t_eq: "t = rev r @ rev pre"
    by (metis rev_append rev_rev_ident)
  have front: "rev r = [] \<or> \<not> is_space (hd (rev r))"
  proof (cases "r = []")
    case True then show ?thesis by simp
  next
    case False
    then have "hd (rev r) = hd t"
      using t_eq by (cases "rev r") auto
    moreover from False t_eq have "t \<noteq> []" by auto
    ultimately show ?thesis using t_ok by simp
  qed
  have "dropWhile is_space (rev r) = rev r"
    using front by (rule dropWhile_fix [of "rev r" is_space])
  moreover have "dropWhile is_space r = r"
    using r_ok by (rule dropWhile_fix [of r is_space])
  ultimately have "trim (rev r) = rev r"
    by (simp add: trim_def)
  with tr show ?thesis by simp
qed

lemma of_char_lower:
  "of_char (lower_char c) = (let n = of_char c in if is_upper n then n + 32 else (n::nat))"
  by (auto simp: lower_char_def Let_def is_upper_def)

lemma is_space_lower [simp]: "is_space (lower_char c) = is_space c"
  by (auto simp: is_space_def of_char_lower Let_def is_upper_def)

lemma lower_char_idem [simp]: "lower_char (lower_char c) = lower_char c"
proof -
  have "(of_char (lower_char (lower_char c)) :: nat) = of_char (lower_char c)"
    by (auto simp: of_char_lower Let_def is_upper_def)
  then show ?thesis
    by (metis char_of_char)
qed

lemma lower_idem [simp]: "toLowerCase (toLowerCase s) = toLowerCase s"
  by (simp add: toLowerCase_def)

lemma dropWhile_lower: "dropWhile is_space (map lower_char s) = map lower_char (dropWhile is_space s)"
  by (induction s) auto

lemma trim_lower: "trim (toLowerCase s) = toLowerCase (trim s)"
  by (simp only: trim_def toLowerCase_def dropWhile_lower rev_map)

lemma key_idem: "toLowerCase (trim (toLowerCase (trim s))) = toLowerCase (trim s)"
  by (simp add: trim_lower trim_idem)

text \<open>
  White space and capitals outside ASCII: a no-break space is trimmed, the capital E with
  acute is folded, the multiplication sign and the sharp s stay; a request that names the
  listed playlist in capitals after a no-break space finds it.
\<close>

lemma latin1_key:
  "toLowerCase (trim [CHR 0xA0, CHR 0xC9, CHR 0xD7, CHR 0xDF, CHR 0x20]) = [CHR 0xE9, CHR 0xD7, CHR 0xDF]"
  by code_simp

lemma latin1_name_matches:
  "res_ok (videoWorkerRun fine_page [] [CHR 0xA0 # ''OTHER''] False) = True"
  by code_simp

lemma favorites_key: "stored_key (hd favorites) = ''my favorites''"
  by code_simp

lemma favorites_id: "stored_id (hd favorites) = ''pl_1''"
  by (simp add: favorites_def stored_id_def trim_def is_space_def)

lemma resolve_favorite:
  assumes "toLowerCase (trim n) = ''my favorites''"
  shows "resolveIdsFromNames favorites [n] = [''pl_1'']"
proof -
  have f: "favorites = [hd favorites]"
    by (simp add: favorites_def)
  have "resolveIdsFromNames [hd favorites] [n] = [''pl_1'']"
    using assms
    by (simp add: resolveIdsFromNames_def nonempty_def uniq_def Let_def orElse_def favorites_key
        favorites_id)
  with f show ?thesis by simp
qed

lemma effective_favorite:
  assumes "toLowerCase (trim name) = ''my favorites''"
  shows "effectiveIds favorites [] [name] = [''pl_1'']"
proof -
  from assms have ne: "trim name \<noteq> []"
    by (auto simp: toLowerCase_def)
  from assms have "toLowerCase (trim (trim name)) = ''my favorites''"
    by (simp add: trim_idem)
  then have "resolveIdsFromNames favorites [trim name] = [''pl_1'']"
    by (rule resolve_favorite)
  with ne show ?thesis
    by (simp add: effectiveIds_def nonempty_def uniq_def Let_def)
qed

lemma uniq_into_distinct:
  "distinct xs \<Longrightarrow> set seen \<inter> set xs = {} \<Longrightarrow> uniq_into seen xs = rev seen @ xs"
  by (induction xs arbitrary: seen) auto

lemma uniq_distinct: "distinct xs \<Longrightarrow> uniq xs = xs"
  by (simp add: uniq_def uniq_into_distinct)

lemma set_nonempty: "set (nonempty xs) = set xs - {[]}"
  by (auto simp: nonempty_def)

lemma set_name_keys: "set (name_keys ns) = (\<lambda>s. toLowerCase (trim s)) ` set ns - {[]}"
  by (simp add: name_keys_def set_uniq set_nonempty)

lemma name_keys_idem: "name_keys (name_keys ns) = name_keys ns"
proof -
  have fx: "map (\<lambda>s. toLowerCase (trim s)) (name_keys ns) = name_keys ns"
    by (rule map_idI) (auto simp: set_name_keys key_idem)
  have ne: "nonempty (name_keys ns) = name_keys ns"
    by (auto simp: nonempty_def set_name_keys)
  have d: "uniq (name_keys ns) = name_keys ns"
    by (rule uniq_distinct) (simp add: name_keys_def distinct_uniq)
  show ?thesis
    unfolding name_keys_def [of "name_keys ns"] fx ne d ..
qed

lemma resolve_by_keys:
  "resolveIdsFromNames stored ns =
     (if name_keys ns = [] then []
      else uniq (nonempty (map (\<lambda>n. orElse (map_of (rev (map (\<lambda>p. (stored_key p, stored_id p)) stored)) n) [])
                             (name_keys ns))))"
  by (simp add: resolveIdsFromNames_def name_keys_def Let_def)

lemma resolve_name_keys: "resolveIdsFromNames stored (name_keys ns) = resolveIdsFromNames stored ns"
  by (simp add: resolve_by_keys name_keys_idem)

lemma uniq_Nil_iff: "uniq xs = [] \<longleftrightarrow> xs = []"
  using set_uniq [of xs] by (metis set_empty)

lemma byId_None: "\<forall>i \<in> set its. item_id i \<noteq> k \<Longrightarrow> byId its k = None"
  by (auto simp: byId_def map_of_eq_None_iff)

lemma byName_None: "\<forall>i \<in> set its. toLowerCase (nameRaw i) \<noteq> k \<Longrightarrow> byName its k = None"
  by (auto simp: byName_def map_of_eq_None_iff)

lemma check_ids_missing:
  "\<forall>k \<in> set ids. byId its k = None \<Longrightarrow>
   checked_list (check_ids its ids r) = checked_list r \<and> skipped (check_ids its ids r) = skipped r"
  by (induction ids arbitrary: r) simp_all

lemma check_names_missing:
  "\<forall>k \<in> set ns. byName its k = None \<Longrightarrow>
   checked_list (check_names its ns r) = checked_list r \<and> skipped (check_names its ns r) = skipped r"
  by (induction ns arbitrary: r) simp_all

lemma stored_id_trimmed: "trim (stored_id p) = stored_id p"
  by (simp add: stored_id_def trim_idem)

lemma resolved_trimmed:
  assumes "x \<in> set (resolveIdsFromNames stored ns)"
  shows "trim x = x"
proof -
  let ?m = "map_of (rev (map (\<lambda>p. (stored_key p, stored_id p)) stored))"
  from assms obtain n where x: "x = orElse (?m n) []" "x \<noteq> []"
    by (auto simp: resolve_by_keys set_uniq set_nonempty split: if_splits)
  then obtain v where v: "?m n = Some v" "x = v"
    by (cases "?m n") (auto simp: orElse_def)
  from map_of_SomeD [OF v(1)] obtain p where "v = stored_id p"
    by auto
  with v show ?thesis
    by (simp add: stored_id_trimmed)
qed

lemma effective_trimmed:
  assumes "x \<in> set (effectiveIds stored ids names)"
  shows "trim x = x"
  using assms
  by (auto simp: effectiveIds_def Let_def set_uniq set_nonempty trim_idem resolved_trimmed
      split: if_splits)

lemma ensured_nothing:
  assumes named: "nonempty (map trim ids) \<noteq> [] \<or> nonempty (map trim names) \<noteq> []"
    and none: "\<forall>i \<in> set (items ov).
                 item_id i \<notin> set (effectiveIds stored ids names) \<and>
                 toLowerCase (nameRaw i) \<notin> (\<lambda>n. toLowerCase (trim n)) ` set names"
  shows "checked_list
           (ensurePlaylistsChecked stored ov (effectiveIds stored ids names)
              (if effectiveIds stored ids names \<noteq> [] then [] else uniq (nonempty (map trim names)))) = [] \<and>
         skipped
           (ensurePlaylistsChecked stored ov (effectiveIds stored ids names)
              (if effectiveIds stored ids names \<noteq> [] then [] else uniq (nonempty (map trim names)))) = []"
proof (cases "container ov")
  case False
  then show ?thesis
    by (simp add: ensurePlaylistsChecked_def no_entries_def)
next
  case True
  let ?eff = "effectiveIds stored ids names"
  let ?raw = "uniq (nonempty (map trim names))"
  show ?thesis
  proof (cases "?eff = []")
    case False
    let ?ids = "uniq (nonempty (map trim ?eff))"
    have sub: "set ?ids \<subseteq> set ?eff"
      by (auto simp: set_uniq set_nonempty effective_trimmed)
    with none have miss: "\<forall>k \<in> set ?ids. byId (items ov) k = None"
      by (auto intro!: byId_None)
    have "ensurePlaylistsChecked stored ov ?eff [] =
            (if ?ids \<noteq> [] then check_ids (items ov) ?ids no_entries else no_entries)"
      using True by (simp add: ensurePlaylistsChecked_def Let_def uniq_def nonempty_def)
    with check_ids_missing [OF miss, of no_entries] False show ?thesis
      by (simp add: no_entries_def)
  next
    case eff: True
    from eff have ids0: "uniq (nonempty (map trim ids)) = []"
      by (auto simp: effectiveIds_def Let_def split: if_splits)
    with named have raw: "?raw \<noteq> []"
      by (simp add: uniq_Nil_iff)
    with eff ids0 have res: "resolveIdsFromNames stored ?raw = []"
      by (simp add: effectiveIds_def Let_def)
    have keys: "uniq (nonempty (map (\<lambda>s. toLowerCase (trim s)) ?raw)) = name_keys ?raw"
      by (simp add: name_keys_def)
    have sub: "set (name_keys ?raw) \<subseteq> (\<lambda>n. toLowerCase (trim n)) ` set names"
      by (auto simp: set_name_keys set_uniq set_nonempty trim_idem)
    with none have miss: "\<forall>k \<in> set (name_keys ?raw). byName (items ov) k = None"
      by (auto intro!: byName_None)
    have "ensurePlaylistsChecked stored ov [] ?raw = check_names (items ov) (name_keys ?raw) no_entries"
      using True res
      by (simp add: ensurePlaylistsChecked_def Let_def keys resolve_name_keys)
          (simp add: uniq_def nonempty_def)
    with check_names_missing [OF miss, of no_entries] eff show ?thesis
      by (simp add: no_entries_def)
  qed
qed

section \<open>The claims\<close>

subsection \<open>Submission\<close>

text \<open>
  Claim C3. \<^verbatim>\<open>start\<close> fails fast when the normalised and deduplicated list of targets is
  empty, or when the job is a Set job (\<^verbatim>\<open>clearAll\<close> is false) and neither a playlist id
  nor a playlist name is supplied: whatever the state before, no job exists afterwards, no
  tab is requested, and the only broadcast is one \<^verbatim>\<open>playlist-apply-error\<close>; no
  \<^verbatim>\<open>playlist-apply-started\<close> is sent.
\<close>

theorem start_fails_fast:
  assumes "rejected api p"
  shows "job (start api p s) = None \<and>
         creating (start api p s) = creating s \<and>
         calls (start api p s) =
           calls (cleanup s) @ [Runtime_sendMessage (Playlist_apply_error ''Missing videos or playlists.'')] \<and>
         broadcasts (start api p s) =
           broadcasts s @ [Playlist_apply_error ''Missing videos or playlists.'']"
  using assms
  by (simp add: start_rejected sendMessage_def call_def broadcasts_def messages_of_append
      cleanup_def Let_def clearVideoTimer_def clearTimeout_def split: option.splits)

text \<open>
  The theorem at scenario 2 (a Set job without playlists) in the freshly loaded worker; the
  empty payload is rejected too.
\<close>

theorem start_fails_fast_witness:
  "rejected literal_urls set_nothing \<and> rejected literal_urls no_payload \<and>
   job (start literal_urls set_nothing initial) = None \<and>
   calls (start literal_urls set_nothing initial) =
     [Runtime_sendMessage (Playlist_apply_error ''Missing videos or playlists.'')]"
proof -
  have r: "rejected literal_urls set_nothing"
    by (simp add: rejected_def set_nothing_def no_payload_def orElse_def)
  have r0: "rejected literal_urls no_payload"
    by (simp add: rejected_def no_payload_def orElse_def unique_targets_def uniq_def)
  from start_fails_fast [OF r, of initial] r r0 show ?thesis
    by (simp add: cleanup_def initial_def)
qed

text \<open>
  Claim C7. An accepted job holds in its queue the submitted URLs normalised and
  deduplicated: every entry is the canonical absolute form of a submitted URL (resolved
  against \<^verbatim>\<open>https://rumble.com\<close>, without query and fragment) less its trailing slashes,
  every submitted URL has its entry, no entry ends with a slash, no entry occurs twice
  and the order is that of the first occurrence. The \<^verbatim>\<open>total\<close> of the job, which the
  started event reports, is the number of these distinct normalised targets. The same URL
  submitted twice gives a queue of one target and \<^verbatim>\<open>total = 1\<close>.
\<close>

theorem targets_normalised_and_counted:
  assumes "\<not> rejected api p"
  shows "\<exists>j. job (start api p s) = Some j \<and>
           queue j = uniq (map (stripParams api) (map (toAbs api) (orElse (arg_videoUrls p) []))) \<and>
           distinct (queue j) \<and>
           total j = length (queue j) \<and>
           total j = card ((\<lambda>u. stripParams api (toAbs api u)) ` set (orElse (arg_videoUrls p) [])) \<and>
           (\<forall>q \<in> set (queue j). q = [] \<or> last q \<noteq> CHR ''/'') \<and>
           (\<forall>u \<in> set (orElse (arg_videoUrls p) []).
               \<exists>q \<in> set (queue j). \<exists>n. canonical api u = q @ replicate n (CHR ''/'')) \<and>
           (\<forall>q \<in> set (queue j).
               \<exists>u \<in> set (orElse (arg_videoUrls p) []). \<exists>n. canonical api u = q @ replicate n (CHR ''/'')) \<and>
           (\<forall>u. arg_videoUrls p = Some [u, u] \<longrightarrow>
                total j = 1 \<and> queue j = [stripParams api (toAbs api u)]) \<and>
           Runtime_sendMessage
             (Playlist_apply_started (total j) (if clearAll j then ''clear'' else ''set''))
             \<in> set (calls (start api p s))"
proof -
  let ?us = "orElse (arg_videoUrls p) []"
  let ?j = "new_job api p"
  have q: "queue ?j = uniq (map (stripParams api) (map (toAbs api) ?us))"
    by (simp add: new_job_def unique_targets_def)
  have st: "set (queue ?j) = (\<lambda>u. stripTrailingSlashes (canonical api u)) ` set ?us"
    by (auto simp: q set_uniq normal_form)
  have l: "total ?j = length (queue ?j)"
    by (simp add: new_job_def)
  have t: "total ?j = card ((\<lambda>u. stripParams api (toAbs api u)) ` set ?us)"
    using length_uniq [of "map (stripParams api) (map (toAbs api) ?us)"]
    by (simp add: new_job_def unique_targets_def image_image)
  have noslash: "\<forall>q \<in> set (queue ?j). q = [] \<or> last q \<noteq> CHR ''/''"
    unfolding st using strip_slashes_last by auto
  have fwd: "\<forall>u \<in> set ?us. \<exists>q \<in> set (queue ?j). \<exists>n. canonical api u = q @ replicate n (CHR ''/'')"
  proof
    fix u assume "u \<in> set ?us"
    then have "stripTrailingSlashes (canonical api u) \<in> set (queue ?j)"
      unfolding st by simp
    with strip_slashes_split [of "canonical api u"]
    show "\<exists>q \<in> set (queue ?j). \<exists>n. canonical api u = q @ replicate n (CHR ''/'')"
      by blast
  qed
  have bwd: "\<forall>q \<in> set (queue ?j). \<exists>u \<in> set ?us. \<exists>n. canonical api u = q @ replicate n (CHR ''/'')"
  proof
    fix q assume "q \<in> set (queue ?j)"
    then obtain u where "u \<in> set ?us" "q = stripTrailingSlashes (canonical api u)"
      unfolding st by auto
    with strip_slashes_split [of "canonical api u"]
    show "\<exists>u \<in> set ?us. \<exists>n. canonical api u = q @ replicate n (CHR ''/'')"
      by blast
  qed
  have d: "\<forall>u. arg_videoUrls p = Some [u, u] \<longrightarrow>
             total ?j = 1 \<and> queue ?j = [stripParams api (toAbs api u)]"
    by (simp add: new_job_def unique_targets_def uniq_def orElse_def)
  have m: "Runtime_sendMessage
             (Playlist_apply_started (total ?j) (if clearAll ?j then ''clear'' else ''set''))
             \<in> set (calls (start api p s))"
    using assms by (simp add: start_accepted new_job_def)
  have js: "job (start api p s) = Some ?j"
    using assms by (simp add: start_accepted)
  have dq: "distinct (queue ?j)"
    by (simp add: q distinct_uniq)
  from js q dq l t noslash fwd bwd d m show ?thesis
    by (intro exI [of _ ?j] conjI)
qed

text \<open>
  The theorem for four submitted strings of which three are spellings of one video: a path
  with a query, the URL with a trailing slash, and the URL with a fragment.
\<close>

theorem targets_normalised_and_counted_witness:
  "\<not> rejected simple_urls spellings \<and>
   canonical simple_urls ''/v1?x=1'' = ''https://rumble.com/v1'' \<and>
   canonical simple_urls ''https://rumble.com/v1/'' = ''https://rumble.com/v1/'' \<and>
   canonical simple_urls ''https://rumble.com/v1#t'' = ''https://rumble.com/v1'' \<and>
   (\<exists>j. job (start simple_urls spellings initial) = Some j \<and> total j = 2 \<and>
        queue j = [''https://rumble.com/v1'', ''https://rumble.com/v2''])"
proof -
  have u: "unique_targets simple_urls (orElse (arg_videoUrls spellings) []) =
             [''https://rumble.com/v1'', ''https://rumble.com/v2'']"
    by (simp add: spellings_def no_payload_def orElse_def unique_targets_def uniq_def
        simple_urls_def with_scheme_def toAbs_def stripParams_def stripTrailingSlashes_def)
  then have a: "\<not> rejected simple_urls spellings"
    by (simp add: rejected_def spellings_def no_payload_def orElse_def)
  have c: "canonical simple_urls ''/v1?x=1'' = ''https://rumble.com/v1''"
    "canonical simple_urls ''https://rumble.com/v1/'' = ''https://rumble.com/v1/''"
    "canonical simple_urls ''https://rumble.com/v1#t'' = ''https://rumble.com/v1''"
    by (simp_all add: canonical_def simple_urls_def with_scheme_def)
  from targets_normalised_and_counted [OF a, of initial]
  obtain j where "job (start simple_urls spellings initial) = Some j"
    and "queue j = uniq (map (stripParams simple_urls) (map (toAbs simple_urls)
                     (orElse (arg_videoUrls spellings) [])))"
    and "total j = length (queue j)"
    by blast
  with u have "job (start simple_urls spellings initial) = Some j \<and> total j = 2 \<and>
               queue j = [''https://rumble.com/v1'', ''https://rumble.com/v2'']"
    by (simp add: unique_targets_def)
  with a c show ?thesis by blast
qed

subsection \<open>Progress and completion\<close>

text \<open>
  Claim C4, as stated, fails: a job of three targets whose hidden tab cannot be created
  ends with its completion and without any progress event, so its \<^verbatim>\<open>done\<close> values neither
  start at 1 nor end at the total.
\<close>

theorem progress_never_starts_without_tab:
  "job (job_trace literal_urls clear3 [TabCreated None]) = None \<and>
   dones_of (broadcasts (job_trace literal_urls clear3 [TabCreated None])) = [] \<and>
   broadcasts (job_trace literal_urls clear3 [TabCreated None]) =
     [Playlist_apply_started 3 ''clear'',
      Playlist_apply_complete 0 3 ''Failed to create hidden tab.'']"
  by (simp add: eval_defs clear3_def)

text \<open>
  Claim C4, amended. Within one job whose hidden tab was created, whatever events arrive
  and in whatever order: every event that ends the active target (the callback of a failed
  injection, the timer that fires, a worker result with or without success) broadcasts
  exactly one progress event, with the \<^verbatim>\<open>done\<close> value one higher than before, and no
  other event broadcasts anything; so the \<^verbatim>\<open>done\<close> values sent so far are 1, 2, ..., \<open>k\<close>
  with \<open>k\<close> equal to \<^verbatim>\<open>job.done\<close>, the targets taken from the queue are \<open>k + 1\<close> while
  the job runs, and \<open>k\<close> is the total once the queue has emptied and the job is gone.
\<close>

theorem progress_once_per_ended_target:
  assumes "\<not> rejected api p" and "t \<noteq> 0"
    and "\<forall>e \<in> set evs. \<forall>q. e \<noteq> Start q" and "\<forall>q. e \<noteq> Start q"
  shows "let s = job_trace api p (TabCreated (Some t) # evs); N = length (targets api p);
             k = length (dones_of (broadcasts s))
         in dones_of (broadcasts s) = [1..<Suc k] \<and>
            (case job s of
               Some j \<Rightarrow>
                 done_count j = k \<and> total j = N \<and> tabId j = Some t \<and>
                 k + 1 + length (queue j) = N
             | None \<Rightarrow> k = N) \<and>
            broadcasts (step api s e) = broadcasts s @ ended s e"
proof -
  let ?created = "job_trace api p [TabCreated (Some t)]"
  let ?s = "job_trace api p (TabCreated (Some t) # evs)"
  let ?N = "length (targets api p)"
  from assms(1) obtain u rest where us: "unique_targets api (orElse (arg_videoUrls p) []) = u # rest"
    by (cases "unique_targets api (orElse (arg_videoUrls p) [])") (auto simp: rejected_def)
  have s: "?s = run api ?created evs"
    by (simp add: job_trace_def run_def)
  have one: "\<forall>e \<in> set [TabCreated (Some t)]. \<forall>q. e \<noteq> Start q"
    by simp
  have inv0: "job_inv ?N ?created"
    unfolding targets_def by (rule inv_job_trace [OF assms(1) one])
  from ready_after_create(1) [OF assms(1,2) us]
  have tab0: "case job ?created of None \<Rightarrow> length (dones_of (messages_of (calls ?created))) = ?N
                            | Some j \<Rightarrow> tabId j = Some t"
    by (simp add: ready_def)
  from created_run [OF inv0 tab0 assms(3), of api]
  have inv: "job_inv ?N ?s"
    and tb: "case job ?s of None \<Rightarrow> length (dones_of (messages_of (calls ?s))) = ?N
                          | Some j \<Rightarrow> tabId j = Some t"
    unfolding s by simp_all
  from assms(4) have ns: "\<And>q. e \<noteq> Start q" by simp
  have a: "dones_of (broadcasts ?s) = [1..<Suc (length (dones_of (broadcasts ?s)))]"
    using inv by (simp add: job_inv_def Let_def broadcasts_def count_up_def del: upt_Suc)
  have b: "case job ?s of
             Some j \<Rightarrow>
               done_count j = length (dones_of (broadcasts ?s)) \<and> total j = ?N \<and>
               tabId j = Some t \<and> length (dones_of (broadcasts ?s)) + 1 + length (queue j) = ?N
           | None \<Rightarrow> length (dones_of (broadcasts ?s)) = ?N"
    using inv tb by (auto simp: job_inv_def Let_def broadcasts_def split: option.splits)
  have c: "broadcasts (step api ?s e) = broadcasts ?s @ ended ?s e"
  proof (cases "job ?s")
    case None
    with inv_stable_None [OF None ns, of api] show ?thesis
      by (simp add: broadcasts_def ended_def)
  next
    case (Some j)
    with tb have tab: "tabId j = Some t" by simp
    from inv Some tab have "creating ?s = 0" "workerHandlers ?s = 1"
      by (auto simp: job_inv_def Let_def)
    from step_running [OF Some tab this ns, of api] show ?thesis by simp
  qed
  from a b c show ?thesis
    unfolding Let_def by blast
qed

text \<open>
  The theorem at a failed injection for the first of three targets, and at the end of
  scenario 3.
\<close>

theorem progress_once_per_ended_target_witness:
  "\<not> rejected literal_urls clear3 \<and> (7::nat) \<noteq> 0 \<and>
   broadcasts (job_trace literal_urls clear3 [TabCreated (Some 7), TabUpdated 7 True]) =
     [Playlist_apply_started 3 ''clear''] \<and>
   broadcasts (step literal_urls
      (job_trace literal_urls clear3 [TabCreated (Some 7), TabUpdated 7 True]) (Injected 7 True)) =
     [Playlist_apply_started 3 ''clear'',
      Playlist_apply_progress 1 3 (Some ''https://rumble.com/v1'') ''Inject failed; skipping.''] \<and>
   dones_of (broadcasts (job_trace literal_urls clear3 scenario3)) = [1, 2, 3] \<and>
   job (job_trace literal_urls clear3 scenario3) = None"
proof -
  have n: "(7::nat) \<noteq> 0" by simp
  have e1: "\<forall>e \<in> set [TabUpdated 7 True]. \<forall>q. e \<noteq> Start q" by simp
  have e2: "\<forall>q. Injected 7 True \<noteq> Start q" by simp
  have b0: "broadcasts (job_trace literal_urls clear3 [TabCreated (Some 7), TabUpdated 7 True]) =
              [Playlist_apply_started 3 ''clear'']"
    by (simp add: eval_defs clear3_def)
  have en: "ended (job_trace literal_urls clear3 [TabCreated (Some 7), TabUpdated 7 True])
              (Injected 7 True) =
            [Playlist_apply_progress 1 3 (Some ''https://rumble.com/v1'') ''Inject failed; skipping.'']"
    by (simp add: ended_def ends_target_def end_note_def url_or_null_def eval_defs clear3_def)
  from progress_once_per_ended_target [OF clear3_accepted n e1 e2]
  have "broadcasts (step literal_urls
          (job_trace literal_urls clear3 [TabCreated (Some 7), TabUpdated 7 True]) (Injected 7 True)) =
        broadcasts (job_trace literal_urls clear3 [TabCreated (Some 7), TabUpdated 7 True]) @
        ended (job_trace literal_urls clear3 [TabCreated (Some 7), TabUpdated 7 True]) (Injected 7 True)"
    unfolding Let_def by (elim conjE)
  then have s1: "broadcasts (step literal_urls
          (job_trace literal_urls clear3 [TabCreated (Some 7), TabUpdated 7 True]) (Injected 7 True)) =
     [Playlist_apply_started 3 ''clear'',
      Playlist_apply_progress 1 3 (Some ''https://rumble.com/v1'') ''Inject failed; skipping.'']"
    by (simp add: b0 en)
  have d: "dones_of (broadcasts (job_trace literal_urls clear3 scenario3)) = [1, 2, 3]"
    by (simp add: scenario3_calls)
  have j: "job (job_trace literal_urls clear3 scenario3) = None"
    by (simp add: eval_defs clear3_def scenario3_def)
  from clear3_accepted n b0 s1 d j show ?thesis by simp
qed

text \<open>
  Claim C1, as stated, fails: in scenario 3 the completion reports \<^verbatim>\<open>successCount = 3\<close>
  of 3, though the second target timed out.
\<close>

theorem timed_out_target_counted:
  "broadcasts (job_trace literal_urls clear3 scenario3) =
     [Playlist_apply_started 3 ''clear'',
      Playlist_apply_progress 1 3 (Some ''https://rumble.com/v1'') ''Cleared'',
      Playlist_apply_progress 2 3 (Some ''https://rumble.com/v2'') ''Timeout; skipping.'',
      Playlist_apply_progress 3 3 (Some ''https://rumble.com/v3'') ''Cleared'',
      Playlist_apply_complete 3 3 ''All videos processed.'']"
  by code_simp

text \<open>
  Claim C1, amended. Within one job at most one completion is sent: none while the job
  exists, exactly one once it is gone, and it is then the last broadcast. The completion
  for the emptied queue carries \<^verbatim>\<open>successCount = total\<close>, the number of progress events:
  \<^verbatim>\<open>successCount\<close> is \<^verbatim>\<open>job.done\<close> and counts every processed target. Only the completion
  for a tab that could not be created carries 0, after no progress event.
\<close>

theorem complete_counts_processed:
  assumes "\<not> rejected api p" and "\<forall>e \<in> set evs. \<forall>q. e \<noteq> Start q"
  shows "let s = job_trace api p evs; N = length (targets api p); ms = broadcasts s
         in length (completes_of ms) \<le> 1 \<and>
            (job s \<noteq> None \<longrightarrow> completes_of ms = []) \<and>
            (job s = None \<longrightarrow> ms \<noteq> [] \<and> completes_of [last ms] = completes_of ms \<and>
                               length (completes_of ms) = 1) \<and>
            (\<forall>c n. (c, n, ''All videos processed.'') \<in> set (completes_of ms)
                 \<longrightarrow> c = N \<and> n = N \<and> length (dones_of ms) = N) \<and>
            (\<forall>c n. (c, n, ''Failed to create hidden tab.'') \<in> set (completes_of ms)
                 \<longrightarrow> c = 0 \<and> n = N \<and> dones_of ms = [])"
proof -
  have inv: "job_inv (length (targets api p)) (job_trace api p evs)"
    unfolding targets_def by (rule inv_job_trace [OF assms])
  have split: "\<And>ms. ms \<noteq> [] \<Longrightarrow> completes_of ms = completes_of (butlast ms) @ completes_of [last ms]"
    by (metis append_butlast_last_id completes_of_append)
  show ?thesis
  proof (cases "job (job_trace api p evs)")
    case None
    let ?ms = "messages_of (calls (job_trace api p evs))"
    from inv None have ne: "?ms \<noteq> []" and l: "completes_of [last ?ms] \<noteq> []"
      and one: "length (completes_of ?ms) = 1"
      by (auto simp: job_inv_def Let_def)
    from split [OF ne] one l have "completes_of [last ?ms] = completes_of ?ms"
      by (cases "completes_of (butlast ?ms)") auto
    with inv None show ?thesis
      by (auto simp: job_inv_def Let_def broadcasts_def)
  next
    case (Some j)
    with inv show ?thesis
      by (auto simp: job_inv_def Let_def broadcasts_def)
  qed
qed

text \<open>The theorem at scenario 3.\<close>

theorem complete_counts_processed_witness:
  "\<not> rejected literal_urls clear3 \<and>
   job (job_trace literal_urls clear3 scenario3) = None \<and>
   completes_of (broadcasts (job_trace literal_urls clear3 scenario3)) =
     [(3, 3, ''All videos processed.'')] \<and>
   length (dones_of (broadcasts (job_trace literal_urls clear3 scenario3))) = 3"
proof -
  have j: "job (job_trace literal_urls clear3 scenario3) = None"
    by code_simp
  have c: "(3, 3, ''All videos processed.'')
             \<in> set (completes_of (broadcasts (job_trace literal_urls clear3 scenario3)))"
    by (simp add: scenario3_calls)
  from complete_counts_processed [OF clear3_accepted scenario3_no_start] j c
  show ?thesis
    using clear3_accepted
    by (simp add: Let_def scenario3_calls)
qed

subsection \<open>Results per target\<close>

text \<open>
  Claim C2, as stated, fails: when the tab cannot be created, a job of two targets ends
  with its completion and without any result.
\<close>

theorem no_result_without_tab:
  "job (job_trace literal_urls set2 [TabCreated None]) = None \<and>
   broadcasts (job_trace literal_urls set2 [TabCreated None]) =
     [Playlist_apply_started 2 ''set'',
      Playlist_apply_complete 0 2 ''Failed to create hidden tab.'']"
  by (simp add: eval_defs set2_def)

text \<open>
  Claim C2, amended. When the tab of a job is created and each of its N distinct
  normalised targets ends in one of the three ways (the injection fails, the timer fires,
  the worker answers, with or without success), the job sends exactly N results, one per
  target in the order of the queue and numbered 1 to N, then its completion, and is gone.
\<close>

theorem one_result_per_target:
  assumes "\<not> rejected api p" and "t \<noteq> 0" and "length outs = length (targets api p)"
  shows "job (job_play api p t outs) = None \<and>
         broadcasts (job_play api p t outs) =
           Playlist_apply_started (length (targets api p)) (mode p) #
           results (new_job api p) 0 (targets api p) outs @
           [Playlist_apply_complete (length (targets api p)) (length (targets api p))
              ''All videos processed.''] \<and>
         length (results (new_job api p) 0 (targets api p) outs) = length (targets api p) \<and>
         dones_of (results (new_job api p) 0 (targets api p) outs) = [1..<Suc (length (targets api p))]"
proof -
  from assms(1) have ne: "targets api p \<noteq> []"
    by (auto simp: rejected_def targets_def)
  have len: "length outs = length (unique_targets api (orElse (arg_videoUrls p) []))"
    using assms(3) by (simp add: targets_def)
  have tot: "total (new_job api p) = length (targets api p)"
    by (simp add: new_job_def targets_def)
  note log = job_play_calls [OF assms(1,2) len, folded targets_def mode_def]
  have "messages_of (calls (job_play api p t outs)) =
          Playlist_apply_started (length outs) (mode p) #
          messages_of (expected_calls (new_job api p) t 0 (targets api p) outs)"
    unfolding log(2) by simp
  also have "\<dots> = Playlist_apply_started (length (targets api p)) (mode p) #
           results (new_job api p) 0 (targets api p) outs @
           [Playlist_apply_complete (length (targets api p)) (length (targets api p))
              ''All videos processed.'']"
    unfolding messages_expected_calls [OF assms(3) ne] tot assms(3) by simp
  finally have b: "broadcasts (job_play api p t outs) =
           Playlist_apply_started (length (targets api p)) (mode p) #
           results (new_job api p) 0 (targets api p) outs @
           [Playlist_apply_complete (length (targets api p)) (length (targets api p))
              ''All videos processed.'']"
    unfolding broadcasts_def .
  have d: "dones_of (results (new_job api p) 0 (targets api p) outs) = [1..<Suc (length (targets api p))]"
    using dones_results [OF assms(3), of "new_job api p" 0] by (simp add: count_up_def del: upt_Suc)
  from log(1) b d length_results [OF assms(3)] show ?thesis
    by blast
qed

text \<open>The theorem for a job of three targets that all fail, each in another way.\<close>

theorem one_result_per_target_witness:
  "\<not> rejected literal_urls clear3 \<and> (7::nat) \<noteq> 0 \<and>
   length [Responds False (Some ''no matching playlists found''), TimesOut, InjectFails]
     = length (targets literal_urls clear3) \<and>
   broadcasts (job_play literal_urls clear3 7
      [Responds False (Some ''no matching playlists found''), TimesOut, InjectFails]) =
     [Playlist_apply_started 3 ''clear'',
      Playlist_apply_progress 1 3 (Some ''https://rumble.com/v1'') ''Skipped: no matching playlists found'',
      Playlist_apply_progress 2 3 (Some ''https://rumble.com/v2'') ''Timeout; skipping.'',
      Playlist_apply_progress 3 3 (Some ''https://rumble.com/v3'') ''Inject failed; skipping.'',
      Playlist_apply_complete 3 3 ''All videos processed.'']"
proof -
  have l: "length [Responds False (Some ''no matching playlists found''), TimesOut, InjectFails]
             = length (targets literal_urls clear3)"
    by (simp add: clear3_targets)
  have n: "(7::nat) \<noteq> 0" by simp
  have m: "mode clear3 = ''clear''"
    by (simp add: mode_def clear3_def no_payload_def orElse_def)
  have c: "clearAll (new_job literal_urls clear3)" "total (new_job literal_urls clear3) = 3"
    using clear3_targets by (simp_all add: new_job_def clear3_def no_payload_def orElse_def targets_def)
  from one_result_per_target [OF clear3_accepted n l] clear3_accepted l m c
  show ?thesis
    by (simp add: clear3_targets outcome_note_def worker_note_def url_or_null_def)
qed

subsection \<open>The timeout\<close>

text \<open>
  Claim C5, as stated, fails: after the injection was requested no timer is armed. The
  timer is set in the callback of the injection; until that callback runs, and while the
  page is still loading, nothing ends the target.
\<close>

theorem no_timer_before_injection_ends:
  "calls (job_trace literal_urls clear3 [TabCreated (Some 7), TabUpdated 7 True]) =
     [Runtime_sendMessage (Playlist_apply_started 3 ''clear''),
      Tabs_create ''https://rumble.com/v1'', Scripting_executeScript 7] \<and>
   timers (job_trace literal_urls clear3 [TabCreated (Some 7), TabUpdated 7 True]) = [] \<and>
   timers (job_trace literal_urls clear3 [TabCreated (Some 7)]) = [] \<and>
   job (job_trace literal_urls clear3 [TabCreated (Some 7), TabUpdated 7 True]) \<noteq> None \<and>
   job_trace literal_urls clear3 [TabCreated (Some 7), TabUpdated 7 True, TimerFired 1] =
     job_trace literal_urls clear3 [TabCreated (Some 7), TabUpdated 7 True]"
  by (simp add: eval_defs clear3_def)

text \<open>
  Claim C5, amended. The timer of a target is armed in the callback of a successful
  injection, in the step that sends the request to the worker, with the delay
  \<^verbatim>\<open>perVideoTimeoutMs\<close> of the payload or 30000 ms. When the pages of all N targets load
  and take the injection but no worker ever answers, the N timers fire one after the
  other, every target is reported with the note \<^verbatim>\<open>Timeout; skipping.\<close>, and the job
  completes.
\<close>

theorem timeout_forward_progress:
  assumes "\<not> rejected api p" and "t \<noteq> 0"
  shows "let N = length (targets api p);
             s0 = job_trace api p [TabCreated (Some t)];
             s1 = run api s0 [TabUpdated t True, Injected t False];
             s = job_play api p t (replicate N TimesOut)
         in timers s0 = [] \<and>
            timers s1 = [(nextTimerId s0, orElse (arg_perVideoTimeoutMs p) 30000)] \<and>
            calls s1 = calls s0 @
              [Scripting_executeScript t,
               Tabs_sendMessage t (orElse (arg_playlistIds p) []) (orElse (arg_playlistNames p) [])
                 (orElse (arg_clearAll p) False)] \<and>
            job s = None \<and>
            broadcasts s =
              Playlist_apply_started N (mode p) #
              map (\<lambda>(i, u). Playlist_apply_progress (Suc i) N (url_or_null u) ''Timeout; skipping.'')
                (enumerate 0 (targets api p)) @
              [Playlist_apply_complete N N ''All videos processed.'']"
proof -
  from assms(1) obtain u rest where us: "unique_targets api (orElse (arg_videoUrls p) []) = u # rest"
    by (cases "unique_targets api (orElse (arg_videoUrls p) [])") (auto simp: rejected_def)
  then have ne: "targets api p \<noteq> []"
    by (simp add: targets_def)
  let ?N = "length (targets api p)"
  let ?s0 = "job_trace api p [TabCreated (Some t)]"
  let ?j = "(new_job api p)\<lparr>tabId := Some t, onWorkerMsg := True, currentUrl := Some u, queue := rest\<rparr>"
  from ready_after_create(1) [OF assms us] have r: "ready ?s0 ?j t u" .
  then have t0: "timers ?s0 = []"
    by (simp add: ready_def)
  from r have t1: "timers (run api ?s0 [TabUpdated t True, Injected t False]) =
                     [(nextTimerId ?s0, orElse (arg_perVideoTimeoutMs p) 30000)]"
    and c1: "calls (run api ?s0 [TabUpdated t True, Injected t False]) = calls ?s0 @
              [Scripting_executeScript t,
               Tabs_sendMessage t (orElse (arg_playlistIds p) []) (orElse (arg_playlistNames p) [])
                 (orElse (arg_clearAll p) False)]"
    by (simp_all add: ready_def run_def onUpdated_def injected_def setTimeout_def call_def
        new_job_def Let_def)
  have len: "length (replicate ?N TimesOut) = length (unique_targets api (orElse (arg_videoUrls p) []))"
    by (simp add: targets_def)
  have len': "length (replicate ?N TimesOut) = length (targets api p)"
    by simp
  have tot: "total (new_job api p) = ?N"
    by (simp add: new_job_def targets_def)
  note log = job_play_calls [OF assms len, folded targets_def mode_def]
  have "messages_of (calls (job_play api p t (replicate ?N TimesOut))) =
          Playlist_apply_started ?N (mode p) #
          messages_of (expected_calls (new_job api p) t 0 (targets api p) (replicate ?N TimesOut))"
    unfolding log(2) by simp
  also have "\<dots> = Playlist_apply_started ?N (mode p) #
              map (\<lambda>(i, u). Playlist_apply_progress (Suc i) ?N (url_or_null u) ''Timeout; skipping.'')
                (enumerate 0 (targets api p)) @
              [Playlist_apply_complete ?N ?N ''All videos processed.'']"
    unfolding messages_expected_calls [OF len' ne] results_timeouts tot by simp
  finally have b: "broadcasts (job_play api p t (replicate ?N TimesOut)) =
              Playlist_apply_started ?N (mode p) #
              map (\<lambda>(i, u). Playlist_apply_progress (Suc i) ?N (url_or_null u) ''Timeout; skipping.'')
                (enumerate 0 (targets api p)) @
              [Playlist_apply_complete ?N ?N ''All videos processed.'']"
    unfolding broadcasts_def .
  from t0 t1 c1 log(1) b show ?thesis
    unfolding Let_def by blast
qed

text \<open>The theorem for the three targets of scenario 3, none of which answers.\<close>

theorem timeout_forward_progress_witness:
  "\<not> rejected literal_urls clear3 \<and> (7::nat) \<noteq> 0 \<and>
   timers (run literal_urls (job_trace literal_urls clear3 [TabCreated (Some 7)])
             [TabUpdated 7 True, Injected 7 False]) = [(1, 1000)] \<and>
   broadcasts (job_play literal_urls clear3 7 [TimesOut, TimesOut, TimesOut]) =
     [Playlist_apply_started 3 ''clear'',
      Playlist_apply_progress 1 3 (Some ''https://rumble.com/v1'') ''Timeout; skipping.'',
      Playlist_apply_progress 2 3 (Some ''https://rumble.com/v2'') ''Timeout; skipping.'',
      Playlist_apply_progress 3 3 (Some ''https://rumble.com/v3'') ''Timeout; skipping.'',
      Playlist_apply_complete 3 3 ''All videos processed.'']"
proof -
  have n: "(7::nat) \<noteq> 0" by simp
  have i: "nextTimerId (job_trace literal_urls clear3 [TabCreated (Some 7)]) = 1"
    by (simp add: eval_defs clear3_def)
  have m: "mode clear3 = ''clear''" "orElse (arg_perVideoTimeoutMs clear3) 30000 = 1000"
    by (simp_all add: mode_def clear3_def no_payload_def orElse_def)
  have r: "replicate 3 TimesOut = [TimesOut, TimesOut, TimesOut]"
    by (simp add: numeral_3_eq_3)
  from timeout_forward_progress [OF clear3_accepted n] clear3_accepted i m r
  show ?thesis
    by (simp add: Let_def clear3_targets url_or_null_def)
qed

subsection \<open>The hidden tab\<close>

text \<open>
  Claim C6, as stated, fails: the tab of the first target is not closed before the second
  target; it is navigated to the second target and closed once, at the end of the job.
\<close>

theorem tab_reused_between_targets:
  "tab_calls (calls (job_trace literal_urls set2
      [TabCreated (Some 7),
       TabUpdated 7 True, Injected 7 False, WorkerMessage (Some 7) ''videoWorkerResult'' True None,
       TabUpdated 7 True, Injected 7 False, WorkerMessage (Some 7) ''videoWorkerResult'' True None])) =
     [Tabs_create ''https://rumble.com/v1'',
      Tabs_update (Some 7) ''https://rumble.com/v2'',
      Tabs_remove 7]"
  by (simp add: eval_defs set2_def)

text \<open>
  Claim C6, amended. A job whose targets end one after the other works in one hidden tab:
  it is created once for the first target, navigated to each further target right after
  the progress event of the target before, and closed once after the completion (never
  with \<^verbatim>\<open>debugKeepTab\<close>).
\<close>

theorem one_tab_per_job:
  assumes "\<not> rejected api p" and "t \<noteq> 0" and "length outs = length (targets api p)"
  shows "calls (job_play api p t outs) =
           Runtime_sendMessage (Playlist_apply_started (length (targets api p)) (mode p)) #
           Tabs_create (hd (targets api p)) #
           expected_calls (new_job api p) t 0 (targets api p) outs \<and>
         tab_calls (calls (job_play api p t outs)) =
           Tabs_create (hd (targets api p)) #
           map (Tabs_update (Some t)) (tl (targets api p)) @
           (if orElse (arg_debugKeepTab p) False then [] else [Tabs_remove t])"
proof -
  from assms(1) have ne: "targets api p \<noteq> []"
    by (auto simp: rejected_def targets_def)
  have len: "length outs = length (unique_targets api (orElse (arg_videoUrls p) []))"
    using assms(3) by (simp add: targets_def)
  have keep: "debugKeepTab (new_job api p) = orElse (arg_debugKeepTab p) False"
    by (simp add: new_job_def)
  note log = job_play_calls [OF assms(1,2) len, folded targets_def mode_def]
  have c: "calls (job_play api p t outs) =
           Runtime_sendMessage (Playlist_apply_started (length (targets api p)) (mode p)) #
           Tabs_create (hd (targets api p)) #
           expected_calls (new_job api p) t 0 (targets api p) outs"
    unfolding log(2) assms(3) ..
  have "tab_calls (calls (job_play api p t outs)) =
          Tabs_create (hd (targets api p)) #
          tab_calls (expected_calls (new_job api p) t 0 (targets api p) outs)"
    unfolding c by simp
  then have "tab_calls (calls (job_play api p t outs)) =
           Tabs_create (hd (targets api p)) #
           map (Tabs_update (Some t)) (tl (targets api p)) @
           (if orElse (arg_debugKeepTab p) False then [] else [Tabs_remove t])"
    unfolding tab_calls_expected [OF assms(3) ne] keep .
  with c show ?thesis by blast
qed

text \<open>The theorem for the two targets of a Set job.\<close>

theorem one_tab_per_job_witness:
  "\<not> rejected literal_urls set2 \<and> (7::nat) \<noteq> 0 \<and>
   length [Responds True None, TimesOut] = length (targets literal_urls set2) \<and>
   tab_calls (calls (job_play literal_urls set2 7 [Responds True None, TimesOut])) =
     [Tabs_create ''https://rumble.com/v1'',
      Tabs_update (Some 7) ''https://rumble.com/v2'',
      Tabs_remove 7]"
proof -
  have n: "(7::nat) \<noteq> 0" by simp
  have l: "length [Responds True None, TimesOut] = length (targets literal_urls set2)"
    by (simp add: set2_targets)
  have k: "orElse (arg_debugKeepTab set2) False = False"
    by (simp add: set2_def no_payload_def orElse_def)
  from one_tab_per_job [OF set2_accepted n l]
  have "tab_calls (calls (job_play literal_urls set2 7 [Responds True None, TimesOut])) =
          Tabs_create (hd (targets literal_urls set2)) #
          map (Tabs_update (Some 7)) (tl (targets literal_urls set2)) @
          (if orElse (arg_debugKeepTab set2) False then [] else [Tabs_remove 7])"
    by (elim conjE)
  with set2_accepted l k show ?thesis
    by (simp add: set2_targets)
qed

subsection \<open>The worker\<close>

text \<open>
  Claim C8. With the playlist directory that maps the name \<^verbatim>\<open>My Favorites\<close> to the id
  \<^verbatim>\<open>pl_1\<close>, a request with no playlist ids and one playlist name that is
  \<^verbatim>\<open>my favorites\<close> up to case and surrounding white space resolves to exactly the ids
  \<^verbatim>\<open>pl_1\<close>: this is what \<^verbatim>\<open>resolveIdsFromNames\<close> returns and what the worker then works
  with.
\<close>

theorem names_resolve_case_insensitively:
  assumes "toLowerCase (trim name) = ''my favorites''"
  shows "resolveIdsFromNames favorites [name] = [''pl_1''] \<and>
         effectiveIds favorites [] [name] = [''pl_1''] \<and>
         set (effectiveIds favorites [] [name]) = {''pl_1''}"
  using resolve_favorite [OF assms] effective_favorite [OF assms] by simp

text \<open>The theorem at the name of property P6 and at a variant in capitals with spaces.\<close>

theorem names_resolve_case_insensitively_witness:
  "toLowerCase (trim ''my favorites'') = ''my favorites'' \<and>
   effectiveIds favorites [] [''my favorites''] = [''pl_1''] \<and>
   toLowerCase (trim ''  MY FAVORITES '') = ''my favorites'' \<and>
   effectiveIds favorites [] [''  MY FAVORITES ''] = [''pl_1'']"
proof -
  have a: "toLowerCase (trim ''my favorites'') = ''my favorites''"
    by code_simp
  have b: "toLowerCase (trim ''  MY FAVORITES '') = ''my favorites''"
    by code_simp
  from names_resolve_case_insensitively [OF a] names_resolve_case_insensitively [OF b] a b
  show ?thesis by simp
qed

text \<open>
  Claim C10, as stated, fails: on a page where the overlay opens but does not close in
  time, a Clear request reports \<^verbatim>\<open>ok = false\<close>.
\<close>

theorem clear_not_ok_when_unconfirmed:
  "videoWorkerRun stuck_page [] [] True =
     \<lparr>res_ok = False,
      res_reason = Some ''overlay did not confirm/close in time or post-verify failed'',
      res_details = Cleared 0 1 False\<rparr>"
  by (simp add: videoWorkerRun_def stuck_page_def other_overlay_def Let_def
      confirmAndCloseOverlay_def ensureAllPlaylistsUnchecked_def)

text \<open>
  Claim C10, amended. On a page where the overlay opens, a Clear request reports as
  \<^verbatim>\<open>ok\<close> the outcome of the confirmation step, whatever the number of boxes it
  unchecked, zero included; and a Set request that names at least one playlist, where no
  item of the overlay has one of the wanted ids or names, reports \<^verbatim>\<open>ok = false\<close> with
  the reason \<^verbatim>\<open>no matching playlists found\<close>.
\<close>

theorem worker_verdict:
  assumes "opened pg = Inr ov"
  shows "videoWorkerRun pg ids names True =
           \<lparr>res_ok = confirmAndCloseOverlay (closed pg) (verified pg),
            res_reason =
              (if confirmAndCloseOverlay (closed pg) (verified pg) then None
               else Some ''overlay did not confirm/close in time or post-verify failed''),
            res_details =
              Cleared (fst (ensureAllPlaylistsUnchecked ov)) (snd (ensureAllPlaylistsUnchecked ov))
                (confirmAndCloseOverlay (closed pg) (verified pg))\<rparr> \<and>
         ((nonempty (map trim ids) \<noteq> [] \<or> nonempty (map trim names) \<noteq> []) \<and>
          (\<forall>i \<in> set (items ov).
              item_id i \<notin> set (effectiveIds (userPlaylists pg) ids names) \<and>
              toLowerCase (nameRaw i) \<notin> (\<lambda>n. toLowerCase (trim n)) ` set names)
          \<longrightarrow> res_ok (videoWorkerRun pg ids names False) = False \<and>
              res_reason (videoWorkerRun pg ids names False) = Some ''no matching playlists found'')"
proof -
  have clear: "videoWorkerRun pg ids names True =
           \<lparr>res_ok = confirmAndCloseOverlay (closed pg) (verified pg),
            res_reason =
              (if confirmAndCloseOverlay (closed pg) (verified pg) then None
               else Some ''overlay did not confirm/close in time or post-verify failed''),
            res_details =
              Cleared (fst (ensureAllPlaylistsUnchecked ov)) (snd (ensureAllPlaylistsUnchecked ov))
                (confirmAndCloseOverlay (closed pg) (verified pg))\<rparr>"
    using assms by (simp add: videoWorkerRun_def Let_def split: prod.splits)
  have set: "res_ok (videoWorkerRun pg ids names False) = False \<and>
             res_reason (videoWorkerRun pg ids names False) = Some ''no matching playlists found''"
    if named: "nonempty (map trim ids) \<noteq> [] \<or> nonempty (map trim names) \<noteq> []"
      and none: "\<forall>i \<in> set (items ov).
              item_id i \<notin> set (effectiveIds (userPlaylists pg) ids names) \<and>
              toLowerCase (nameRaw i) \<notin> (\<lambda>n. toLowerCase (trim n)) ` set names"
  proof -
    from named have some: "\<not> (effectiveIds (userPlaylists pg) ids names = [] \<and>
                              uniq (nonempty (map trim names)) = [])"
      by (auto simp: effectiveIds_def Let_def uniq_Nil_iff)
    from ensured_nothing [OF named none] some assms show ?thesis
      by (auto simp: videoWorkerRun_def Let_def)
  qed
  from clear set show ?thesis by blast
qed

text \<open>
  The theorem on a page whose overlay lists one other playlist, unchecked: the Clear request
  unchecks nothing and is ok, the Set request for the favorites finds no match.
\<close>

theorem worker_verdict_witness:
  "opened fine_page = Inr other_overlay \<and>
   videoWorkerRun fine_page [] [] True =
     \<lparr>res_ok = True, res_reason = None, res_details = Cleared 0 1 True\<rparr> \<and>
   nonempty (map trim [''My Favorites '']) \<noteq> [] \<and>
   res_ok (videoWorkerRun fine_page [] [''My Favorites ''] False) = False \<and>
   res_reason (videoWorkerRun fine_page [] [''My Favorites ''] False) =
     Some ''no matching playlists found''"
proof -
  have o: "opened fine_page = Inr other_overlay"
    by (simp add: fine_page_def)
  have c: "confirmAndCloseOverlay (closed fine_page) (verified fine_page)"
    by (simp add: fine_page_def confirmAndCloseOverlay_def)
  have u: "ensureAllPlaylistsUnchecked other_overlay = (0, 1)"
    by (simp add: ensureAllPlaylistsUnchecked_def other_overlay_def)
  have k: "toLowerCase (trim ''My Favorites '') = ''my favorites''"
    by code_simp
  have n: "nonempty (map trim [''My Favorites '']) \<noteq> []"
    using k by (auto simp: nonempty_def toLowerCase_def)
  have e: "effectiveIds (userPlaylists fine_page) [] [''My Favorites ''] = [''pl_1'']"
    using effective_favorite [OF k] by (simp add: fine_page_def)
  have m: "\<forall>i \<in> set (items other_overlay).
             item_id i \<notin> set (effectiveIds (userPlaylists fine_page) [] [''My Favorites '']) \<and>
             toLowerCase (nameRaw i) \<notin> (\<lambda>n. toLowerCase (trim n)) ` set [''My Favorites '']"
    unfolding e by (simp add: other_overlay_def k) code_simp
  from worker_verdict [OF o, where ids = "[]" and names = "[''My Favorites '']"] n m
  have "res_ok (videoWorkerRun fine_page [] [''My Favorites ''] False) = False \<and>
        res_reason (videoWorkerRun fine_page [] [''My Favorites ''] False) =
          Some ''no matching playlists found''"
    by blast
  moreover from worker_verdict [OF o, where ids = "[]" and names = "[]"] c u
  have "videoWorkerRun fine_page [] [] True =
          \<lparr>res_ok = True, res_reason = None, res_details = Cleared 0 1 True\<rparr>"
    by simp
  ultimately show ?thesis
    using o n by simp
qed

subsection \<open>A hidden tab that is closed from outside\<close>

text \<open>
  Claim C9 does not hold of the code. The listener for removed tabs resets the registries
  of the other jobs (the legacy bulk job is torn down when its tab goes), but it does not
  touch \<^verbatim>\<open>DirectVideoApplyJob\<close>. When tab 7 of a running job of two targets is closed, the
  job stays as it is and keeps the id of the closed tab; no progress event is sent. When
  the timer of the first target fires later, the second target is requested with
  \<^verbatim>\<open>tabs.update\<close> in the closed tab; after that nothing is pending that could end the job.
\<close>

theorem closed_tab_goes_unnoticed:
  "direct (onRemoved 7 (no_registries
      (job_trace literal_urls set2 [TabCreated (Some 7), TabUpdated 7 True, Injected 7 False]))) =
     job_trace literal_urls set2 [TabCreated (Some 7), TabUpdated 7 True, Injected 7 False] \<and>
   map_option tabId
     (job (job_trace literal_urls set2 [TabCreated (Some 7), TabUpdated 7 True, Injected 7 False]))
     = Some (Some 7) \<and>
   broadcasts (job_trace literal_urls set2 [TabCreated (Some 7), TabUpdated 7 True, Injected 7 False])
     = [Playlist_apply_started 2 ''set''] \<and>
   calls (job_trace literal_urls set2
            [TabCreated (Some 7), TabUpdated 7 True, Injected 7 False, TimerFired 1]) =
     [Runtime_sendMessage (Playlist_apply_started 2 ''set''),
      Tabs_create ''https://rumble.com/v1'',
      Scripting_executeScript 7,
      Tabs_sendMessage 7 [] [''my favorites''] False,
      Runtime_sendMessage
        (Playlist_apply_progress 1 2 (Some ''https://rumble.com/v1'') ''Timeout; skipping.''),
      Tabs_update (Some 7) ''https://rumble.com/v2''] \<and>
   map_option tabId
     (job (job_trace literal_urls set2
             [TabCreated (Some 7), TabUpdated 7 True, Injected 7 False, TimerFired 1]))
     = Some (Some 7) \<and>
   timers (job_trace literal_urls set2
             [TabCreated (Some 7), TabUpdated 7 True, Injected 7 False, TimerFired 1]) = [] \<and>
   injecting (job_trace literal_urls set2
             [TabCreated (Some 7), TabUpdated 7 True, Injected 7 False, TimerFired 1]) = [] \<and>
   currentBulkTabId (onRemoved 7 ((no_registries initial)\<lparr>currentBulkTabId := Some 7,
       pendingBulkJobs := [''job''], bulkScriptInjected := True\<rparr>)) = None \<and>
   pendingBulkJobs (onRemoved 7 ((no_registries initial)\<lparr>currentBulkTabId := Some 7,
       pendingBulkJobs := [''job''], bulkScriptInjected := True\<rparr>)) = []"
  by (simp add: eval_defs set2_def onRemoved_def no_registries_def drop_pending_def delete_key_def)

end
